theory Spec2Isabelle
  imports Complex_Main "HOL-Library.Sublist"
begin

section \<open>Strings\<close>

text \<open>
  A JavaScript string is modelled as a \<^typ>\<open>string\<close>: a list of code units below 256
  (ASCII and Latin-1). The functions below are the standard-library operations the
  sources call, restricted to that range.

  \<open>is_ws\<close> is the class \<^verbatim>\<open>\s\<close> of regular expressions, which is also the set of
  characters \<^verbatim>\<open>String.prototype.trim\<close> strips: TAB, LF, VT, FF, CR, SPACE and the
  no-break space U+00A0.
\<close>

definition is_ws :: "char \<Rightarrow> bool" where
  "is_ws c = (c \<in> set [CHR 0x09, CHR 0x0A, CHR 0x0B, CHR 0x0C, CHR 0x0D, CHR '' '', CHR 0xA0])"

definition trim :: "string \<Rightarrow> string" where
  "trim s = rev (dropWhile is_ws (rev (dropWhile is_ws s)))"

text \<open>
  \<^verbatim>\<open>toLowerCase\<close>: the letters A-Z and the Latin-1 capitals U+00C0..U+00DE (without the
  multiplication sign U+00D7) move up by 32; every other code unit below 256 is kept.
\<close>

definition toLowerChar :: "char \<Rightarrow> char" where
  "toLowerChar c = (let n = (of_char c :: nat) in
     if (65 \<le> n \<and> n \<le> 90) \<or> (192 \<le> n \<and> n \<le> 222 \<and> n \<noteq> 215)
     then char_of (n + 32) else c)"

definition toLowerCase :: "string \<Rightarrow> string" where
  "toLowerCase s = map toLowerChar s"

text \<open>\<^verbatim>\<open>s.includes(g)\<close>: \<open>g\<close> occurs in \<open>s\<close> as a contiguous substring.\<close>

fun js_includes :: "string \<Rightarrow> string \<Rightarrow> bool" where
  "js_includes [] g = (g = [])"
| "js_includes (c # cs) g = (prefix g (c # cs) \<or> js_includes cs g)"


section \<open>The remote assistant: \<^verbatim>\<open>src/lib/api.ts\<close>\<close>

text \<open>
  The value \<^verbatim>\<open>response.json()\<close> resolves with. An object is the list of its
  properties; \<open>property\<close> reads one (\<^verbatim>\<open>data.output\<close>), and is \<open>None\<close> (JavaScript's
  \<^verbatim>\<open>undefined\<close>) on an array, on a missing key, and on a primitive.
\<close>

datatype json =
    JNull
  | JBool bool
  | JNum real
  | JStr string
  | JArr "json list"
  | JObj "(string \<times> json) list"

fun truthy :: "json \<Rightarrow> bool" where
  "truthy JNull = False"
| "truthy (JBool b) = b"
| "truthy (JNum x) = (x \<noteq> 0)"
| "truthy (JStr s) = (s \<noteq> [])"
| "truthy (JArr xs) = True"
| "truthy (JObj kvs) = True"

text \<open>\<^verbatim>\<open>typeof data === 'object'\<close> holds of objects, arrays and \<^verbatim>\<open>null\<close>.\<close>

fun typeof_object :: "json \<Rightarrow> bool" where
  "typeof_object JNull = True"
| "typeof_object (JArr xs) = True"
| "typeof_object (JObj kvs) = True"
| "typeof_object (JBool b) = False"
| "typeof_object (JNum x) = False"
| "typeof_object (JStr s) = False"

fun property :: "json \<Rightarrow> string \<Rightarrow> json option" where
  "property (JObj kvs) k = map_of kvs k"
| "property JNull k = None"
| "property (JBool b) k = None"
| "property (JNum x) k = None"
| "property (JStr s) k = None"
| "property (JArr xs) k = None"

text \<open>What a \<^verbatim>\<open>throw\<close> or a rejected promise carries.\<close>

datatype js_error =
    NotConfigured          \<comment> \<open>\<^verbatim>\<open>'Chatbot API URL not configured'\<close>\<close>
  | NetworkError           \<comment> \<open>\<^verbatim>\<open>fetch\<close> rejected\<close>
  | HttpError nat          \<comment> \<open>\<^verbatim>\<open>'HTTP error! status: ...'\<close>\<close>
  | SyntaxError            \<comment> \<open>\<^verbatim>\<open>response.json()\<close> rejected: the body is not JSON\<close>
  | InvalidResponseFormat  \<comment> \<open>\<^verbatim>\<open>'Invalid response format'\<close>\<close>
  | SpeechFailed nat       \<comment> \<open>\<^verbatim>\<open>'Failed to generate speech: ...'\<close>\<close>
  | PlayRejected           \<comment> \<open>\<^verbatim>\<open>audio.play()\<close> rejected\<close>
  | TypeError              \<comment> \<open>a method called on a value that does not have it\<close>
  | InvalidStateError      \<comment> \<open>\<^verbatim>\<open>recognition.start()\<close> on a running recognizer\<close>

text \<open>
  What \<^verbatim>\<open>fetch\<close> does with a request: it rejects, or it resolves with a response that
  has a status and a body; the body is \<open>None\<close> when it does not parse as JSON.
\<close>

datatype fetch_result = FetchRejects | HttpResponse nat "json option"

definition response_ok :: "nat \<Rightarrow> bool" where
  "response_ok status = (200 \<le> status \<and> status \<le> 299)"

record chat_message =
  sessionId :: string
  action :: string
  chatInput :: string

text \<open>What a function does to the outside: requests, console output, appended messages.\<close>

datatype channel = Response | Filler

datatype effect =
    BackendRequest chat_message
  | TTSRequest channel string
  | ConsoleError string
  | AddMessage json bool

text \<open>
  \<open>sendMessage apiUrl sessionId message resp\<close>: the effects of the call, and what its
  promise settles with (\<open>Inl\<close>: rejected). \<open>apiUrl\<close> is the environment variable
  (\<open>None\<close>: not set); \<open>resp\<close> is what the backend does with the request.
\<close>

definition sendMessage ::
  "string option \<Rightarrow> string \<Rightarrow> string \<Rightarrow> fetch_result \<Rightarrow> effect list \<times> (js_error + json)" where
  "sendMessage apiUrl sid message resp =
    (if apiUrl = None \<or> apiUrl = Some [] then ([], Inl NotConfigured)
     else
       let payload = \<lparr>sessionId = sid, action = ''sendMessage'', chatInput = message\<rparr>;
           outcome =
             (case resp of
                FetchRejects \<Rightarrow> Inl NetworkError
              | HttpResponse status body \<Rightarrow>
                  if \<not> response_ok status then Inl (HttpError status)
                  else (case body of
                     None \<Rightarrow> Inl SyntaxError
                   | Some data \<Rightarrow>
                      if truthy data \<and> typeof_object data
                      then (case property data ''output'' of
                         None \<Rightarrow> Inl InvalidResponseFormat
                       | Some out \<Rightarrow> if truthy out then Inr out else Inl InvalidResponseFormat)
                      else Inl InvalidResponseFormat))
       in (BackendRequest payload #
             (case outcome of Inl e \<Rightarrow> [ConsoleError ''Error sending message:''] | Inr v \<Rightarrow> []),
           outcome))"


section \<open>Regular expressions and \<^verbatim>\<open>filterUrlsFromText\<close>\<close>

text \<open>
  The two regular expressions of \<^verbatim>\<open>filterUrlsFromText\<close> (ChatInput.tsx, lines 283-287)
  are alternatives of sequences of three kinds of items: a literal character, an
  optional literal character (\<^verbatim>\<open>s?\<close>), and a greedy repetition of a character class
  with a least count (\<^verbatim>\<open>+\<close> is \<open>Rep P 1\<close>, \<^verbatim>\<open>*\<close> is \<open>Rep P 0\<close>, \<^verbatim>\<open>{2,}\<close> is
  \<open>Rep P 2\<close>).

  \<open>match_items\<close> is the backtracking matcher of JavaScript on such a sequence,
  anchored at the start of the string: the length of the match, or \<open>None\<close>. An optional
  character is taken first and given back if the rest fails; a repetition takes the
  longest run first and gives characters back one at a time down to its least count.
\<close>

datatype item = Lit char | Opt char | Rep "char \<Rightarrow> bool" nat

fun match_items :: "item list \<Rightarrow> string \<Rightarrow> nat option" where
  "match_items [] s = Some 0"
| "match_items (Lit c # rest) s =
     (case s of [] \<Rightarrow> None
      | x # xs \<Rightarrow> if x = c then map_option Suc (match_items rest xs) else None)"
| "match_items (Opt c # rest) s =
     (case (case s of [] \<Rightarrow> None
            | x # xs \<Rightarrow> if x = c then map_option Suc (match_items rest xs) else None) of
        Some n \<Rightarrow> Some n
      | None \<Rightarrow> match_items rest s)"
| "match_items (Rep P k # rest) s =
     (case List.find (\<lambda>j. match_items rest (drop j s) \<noteq> None)
             (rev [k ..< Suc (length (takeWhile P s))]) of
        None \<Rightarrow> None
      | Some j \<Rightarrow> map_option ((+) j) (match_items rest (drop j s)))"

text \<open>An alternation with nothing after it: the first alternative that matches.\<close>

fun match_alts :: "item list list \<Rightarrow> string \<Rightarrow> nat option" where
  "match_alts [] s = None"
| "match_alts (a # alts) s =
     (case match_items a s of Some n \<Rightarrow> Some n | None \<Rightarrow> match_alts alts s)"

text \<open>
  \<^verbatim>\<open>text.replace(regex, rep)\<close> for a global regex and a replacement without \<^verbatim>\<open>$\<close>:
  scanning from the left, a match is replaced and the scan goes on after it; an empty
  match is replaced and the scan steps over one character.
\<close>

fun replace_all :: "(string \<Rightarrow> nat option) \<Rightarrow> string \<Rightarrow> string \<Rightarrow> string" where
  "replace_all m rep [] = (case m [] of Some n \<Rightarrow> rep | None \<Rightarrow> [])"
| "replace_all m rep (c # cs) =
     (case m (c # cs) of
        None \<Rightarrow> c # replace_all m rep cs
      | Some 0 \<Rightarrow> rep @ c # replace_all m rep cs
      | Some (Suc n) \<Rightarrow> rep @ replace_all m rep (drop n cs))"

definition non_ws :: "char \<Rightarrow> bool" where
  "non_ws c = (\<not> is_ws c)"

definition is_alpha :: "char \<Rightarrow> bool" where
  "is_alpha c = (c \<in> set ''abcdefghijklmnopqrstuvwxyzABCDEFGHIJKLMNOPQRSTUVWXYZ'')"

definition is_label :: "char \<Rightarrow> bool" where
  "is_label c = (is_alpha c \<or> c \<in> set ''0123456789-'')"

text \<open>
  \<^verbatim>\<open>/(https?:\/\/[^\s]+|www\.[^\s]+|[a-zA-Z0-9-]+\.[a-zA-Z]{2,}\/[^\s]*|[a-zA-Z0-9-]+\.[a-zA-Z]{2,}[^\s]*)/g\<close>
\<close>

definition urlRegex :: "item list list" where
  "urlRegex =
    [ map Lit ''http'' @ [Opt CHR ''s''] @ map Lit ''://'' @ [Rep non_ws 1],
      map Lit ''www.'' @ [Rep non_ws 1],
      [Rep is_label 1, Lit CHR ''.'', Rep is_alpha 2, Lit CHR ''/'', Rep non_ws 0],
      [Rep is_label 1, Lit CHR ''.'', Rep is_alpha 2, Rep non_ws 0] ]"

text \<open>\<^verbatim>\<open>/\s+/g\<close>\<close>

definition wsRegex :: "item list list" where
  "wsRegex = [[Rep is_ws 1]]"

definition filterUrlsFromText :: "string \<Rightarrow> string" where
  "filterUrlsFromText t =
     trim (replace_all (match_alts wsRegex) '' '' (replace_all (match_alts urlRegex) [] t))"


text \<open>
  \<open>url_free s\<close>: the URL regex matches at no position of \<open>s\<close>. \<open>no_ws_run s\<close>: no two
  whitespace characters of \<open>s\<close> are next to each other.
\<close>

fun url_free :: "string \<Rightarrow> bool" where
  "url_free [] = True"
| "url_free (c # cs) = (match_alts urlRegex (c # cs) = None \<and> url_free cs)"

fun no_ws_run :: "string \<Rightarrow> bool" where
  "no_ws_run (a # b # cs) = (\<not> (is_ws a \<and> is_ws b) \<and> no_ws_run (b # cs))"
| "no_ws_run cs = True"


text \<open>
  In the words of the specification: the token at the start of a string (its characters
  up to the first whitespace), and a token that starts with something URL-like:
  \<^verbatim>\<open>http://\<close> or \<^verbatim>\<open>https://\<close> or \<^verbatim>\<open>www.\<close> and at least one more character, or a
  domain label, a dot and at least two letters.
\<close>

definition tok :: "string \<Rightarrow> string" where
  "tok s = takeWhile non_ws s"

definition starts_url :: "string \<Rightarrow> bool" where
  "starts_url p =
    ((prefix ''https://'' p \<and> 9 \<le> length p)
     \<or> (prefix ''http://'' p \<and> 8 \<le> length p)
     \<or> (prefix ''www.'' p \<and> 5 \<le> length p)
     \<or> (1 \<le> length (takeWhile is_label p)
         \<and> prefix ''.'' (drop (length (takeWhile is_label p)) p)
         \<and> 2 \<le> length (takeWhile is_alpha (drop (Suc (length (takeWhile is_label p))) p))))"


section \<open>The component's state: \<^verbatim>\<open>src/components/ChatInput.tsx\<close>\<close>

text \<open>
  \<open>ChatInput\<close> is a function component. Each call of it (a render) binds its state to
  constants (\<^verbatim>\<open>const [isProcessingVoice, setIsProcessingVoice] = useState(false)\<close>, lines
  42-79) and creates its functions anew, closed over those constants. A setter stores a
  new value for the next render; it does not change a constant of the render whose code
  is running. So there are two records: \<open>render\<close>, the constants one render's functions
  read, and \<open>world\<close>, the values React holds (fields \<open>st_...\<close>), the audio elements of the
  page, and what has been sent out. A function of the component takes the render it
  belongs to and the world it acts on.

  An \<^verbatim>\<open>Audio\<close> element is a number; the object URL made for element \<open>a\<close> is \<open>a\<close> too.
\<close>

record render =
  isLiveChatMode :: bool
  isProcessingVoice :: bool
  isPlayingResponse :: bool
  currentAudio :: "nat option"
  thinkingAudio :: "nat option"
  isListening :: bool
  transcript :: string
  speechSupported :: bool
  session :: string

text \<open>
  A continuation the filler loop has left with the browser: a request in flight, the
  handlers of an audio element, or a timer (with its delay in ms).
\<close>

datatype filler_task = AwaitingFetch string | AudioHandlers nat | ArmedTimer nat

record world =
  st_isLiveChatMode :: bool
  st_isProcessingVoice :: bool
  st_isPlayingResponse :: bool
  st_currentAudio :: "nat option"
  st_thinkingAudio :: "nat option"
  st_liveChatTranscript :: string
  st_session :: string
  st_isListening :: bool        \<comment> \<open>state of \<^verbatim>\<open>useSpeechRecognition\<close>\<close>
  st_transcript :: string
  st_finalTranscript :: string
  hasRecognition :: bool        \<comment> \<open>\<^verbatim>\<open>recognitionRef.current\<close> is not null\<close>
  recognizerRunning :: bool     \<comment> \<open>the browser's recognizer has been started\<close>
  playing :: "nat set"          \<comment> \<open>audio elements that are playing\<close>
  responseAudios :: "nat set"   \<comment> \<open>audio elements created by \<^verbatim>\<open>speakText\<close>\<close>
  fillerAudios :: "nat set"     \<comment> \<open>audio elements created by the filler loop\<close>
  objectUrls :: "nat set"       \<comment> \<open>object URLs created and not revoked\<close>
  audioCount :: nat             \<comment> \<open>audio elements created so far\<close>
  fillerTasks :: "(render \<times> filler_task) list"
  effects :: "effect list"

definition render_of :: "world \<Rightarrow> render" where
  "render_of w =
     \<lparr> isLiveChatMode = st_isLiveChatMode w, isProcessingVoice = st_isProcessingVoice w,
       isPlayingResponse = st_isPlayingResponse w, currentAudio = st_currentAudio w,
       thinkingAudio = st_thinkingAudio w, isListening = st_isListening w,
       transcript = st_transcript w, speechSupported = hasRecognition w,
       session = st_session w \<rparr>"

definition emit :: "effect \<Rightarrow> world \<Rightarrow> world" where
  "emit e w = w\<lparr>effects := effects w @ [e]\<rparr>"

text \<open>\<^verbatim>\<open>audio.pause(); audio.currentTime = 0\<close> (the position is not modelled).\<close>

definition pause :: "nat \<Rightarrow> world \<Rightarrow> world" where
  "pause a w = w\<lparr>playing := playing w - {a}\<rparr>"

text \<open>\<^verbatim>\<open>resetTranscript\<close> (useSpeechRecognition.ts, lines 134-138).\<close>

definition resetTranscript :: "world \<Rightarrow> world" where
  "resetTranscript w = w\<lparr>st_transcript := [], st_finalTranscript := []\<rparr>"


section \<open>\<^verbatim>\<open>speakText\<close>\<close>

text \<open>
  What the text-to-speech endpoint and the audio element do for one call: the request
  rejects, or it answers with a status, and \<^verbatim>\<open>audio.play()\<close> then resolves or
  rejects.
\<close>

datatype tts_result = TtsRejects | TtsResponse nat bool

text \<open>
  The \<^verbatim>\<open>try\<close> block of \<^verbatim>\<open>speakText\<close> (lines 296-342): what it throws, if anything,
  and the world it leaves. The audio it stops is \<open>currentAudio r\<close>, the constant of the
  render this \<^verbatim>\<open>speakText\<close> was created in.
\<close>

definition speakText_try :: "render \<Rightarrow> string \<Rightarrow> tts_result \<Rightarrow> world \<Rightarrow> js_error option \<times> world" where
  "speakText_try r txt tts w =
    (let w1 = (case currentAudio r of Some a \<Rightarrow> pause a w | None \<Rightarrow> w);
         w2 = emit (TTSRequest Response txt) w1
     in case tts of
          TtsRejects \<Rightarrow> (Some NetworkError, w2)
        | TtsResponse status playOk \<Rightarrow>
            if \<not> response_ok status
            then (Some (SpeechFailed status), emit (ConsoleError ''TTS API error:'') w2)
            else
              let a = audioCount w2;
                  w3 = w2\<lparr> audioCount := Suc a, objectUrls := insert a (objectUrls w2),
                           responseAudios := insert a (responseAudios w2),
                           st_currentAudio := Some a \<rparr>
              in if playOk then (None, w3\<lparr>playing := insert a (playing w3)\<rparr>)
                 else (Some PlayRejected, w3))"

text \<open>
  \<^verbatim>\<open>speakText\<close> (lines 288-346): the guard against empty text, and the \<^verbatim>\<open>catch\<close> that
  logs whatever the \<^verbatim>\<open>try\<close> block threw. The first component is what the call
  throws to its caller.
\<close>

definition speakText :: "render \<Rightarrow> string \<Rightarrow> tts_result \<Rightarrow> world \<Rightarrow> js_error option \<times> world" where
  "speakText r txt tts w =
    (if txt = [] \<or> length (trim txt) = 0
     then (None, emit (ConsoleError ''Cannot speak empty text'') w)
     else (case speakText_try r txt tts w of
             (None, w') \<Rightarrow> (None, w')
           | (Some e, w') \<Rightarrow> (None, emit (ConsoleError ''Error speaking text:'') w')))"

text \<open>
  \<^verbatim>\<open>audio.onended\<close> (lines 327-332) and \<^verbatim>\<open>audio.onerror\<close> (lines 334-338) of the element
  \<open>a\<close> that \<^verbatim>\<open>speakText\<close> created; the element has stopped playing when either runs.
\<close>

definition responseAudioEnded :: "nat \<Rightarrow> world \<Rightarrow> world" where
  "responseAudioEnded a w =
     w\<lparr> playing := playing w - {a}, objectUrls := objectUrls w - {a},
        st_currentAudio := None, st_isPlayingResponse := False \<rparr>"

definition responseAudioError :: "nat \<Rightarrow> world \<Rightarrow> world" where
  "responseAudioError a w =
     w\<lparr> playing := playing w - {a}, objectUrls := objectUrls w - {a},
        st_currentAudio := None, st_isPlayingResponse := False \<rparr>"


section \<open>The filler loop: \<^verbatim>\<open>startContinuousThinking\<close>, \<^verbatim>\<open>stopContinuousThinking\<close>\<close>

definition thinkingSounds :: "string list" where
  "thinkingSounds =
    [ ''Hmm...'', ''Let me see...'', ''Still thinking...'', ''One moment...'',
      ''Processing...'', ''Almost there...'', ''Just a bit more...'', ''Working on it...'',
      ''Getting the information...'', ''Analyzing your question...'' ]"

text \<open>\<^verbatim>\<open>stopContinuousThinking\<close> (lines 430-436).\<close>

definition stopContinuousThinking :: "render \<Rightarrow> world \<Rightarrow> world" where
  "stopContinuousThinking r w =
     (case thinkingAudio r of
        Some a \<Rightarrow> (pause a w)\<lparr>st_thinkingAudio := None\<rparr>
      | None \<Rightarrow> w)"

text \<open>
  \<^verbatim>\<open>playRandomThinkingSound\<close> (lines 363-424) up to its first \<^verbatim>\<open>await\<close>. \<open>k\<close> is
  \<^verbatim>\<open>Math.floor(Math.random() * thinkingSounds.length)\<close>, an index below the length
  (\<^verbatim>\<open>Math.random()\<close> is below 1), written \<open>k mod length thinkingSounds\<close>. The guard
  reads the flags of the render \<open>r\<close> in which \<^verbatim>\<open>startContinuousThinking\<close> was created.
\<close>

definition playRandomThinkingSound :: "render \<Rightarrow> nat \<Rightarrow> world \<Rightarrow> world" where
  "playRandomThinkingSound r k w =
     (if \<not> isProcessingVoice r \<or> \<not> isLiveChatMode r then w
      else
        let sound = thinkingSounds ! (k mod length thinkingSounds);
            w1 = emit (TTSRequest Filler sound) w
        in w1\<lparr>fillerTasks := fillerTasks w1 @ [(r, AwaitingFetch sound)]\<rparr>)"

definition startContinuousThinking :: "render \<Rightarrow> nat \<Rightarrow> world \<Rightarrow> world" where
  "startContinuousThinking r k w = playRandomThinkingSound r k w"

text \<open>The reschedule every callback of the loop ends with (lines 393, 405, 418).\<close>

definition reschedule :: "render \<Rightarrow> nat \<Rightarrow> world \<Rightarrow> world" where
  "reschedule r delay w =
     (if isProcessingVoice r \<and> isLiveChatMode r
      then w\<lparr>fillerTasks := fillerTasks w @ [(r, ArmedTimer delay)]\<rparr>
      else w)"

text \<open>
  The callbacks of the loop. Each names the task it continues by its place \<open>i\<close> in
  \<open>fillerTasks\<close>; a callback for a task that is not there, or of another kind, does not
  exist and changes nothing.
  \<^item> \<open>FetchSettled i tts\<close>: the request of task \<open>i\<close> settles (lines 381-423);
  \<^item> \<open>AudioEnded i d\<close>: \<^verbatim>\<open>onended\<close> (lines 388-398), with \<open>d\<close> the value of
    \<^verbatim>\<open>Math.random() * 2000\<close>, below 2000;
  \<^item> \<open>AudioFailed i\<close>: \<^verbatim>\<open>onerror\<close> (lines 400-410);
  \<^item> \<open>TimerFired i k\<close>: the timer calls \<^verbatim>\<open>playRandomThinkingSound\<close> again.
\<close>

datatype filler_event =
    FetchSettled nat tts_result
  | AudioEnded nat nat
  | AudioFailed nat
  | TimerFired nat nat

definition remove_task :: "nat \<Rightarrow> world \<Rightarrow> world" where
  "remove_task i w = w\<lparr>fillerTasks := take i (fillerTasks w) @ drop (Suc i) (fillerTasks w)\<rparr>"

definition task_at :: "world \<Rightarrow> nat \<Rightarrow> (render \<times> filler_task) option" where
  "task_at w i = (if i < length (fillerTasks w) then Some (fillerTasks w ! i) else None)"

fun filler_step :: "filler_event \<Rightarrow> world \<Rightarrow> world" where
  "filler_step (FetchSettled i tts) w =
     (case task_at w i of
        Some (r, AwaitingFetch sound) \<Rightarrow>
          (let w1 = remove_task i w in
           case tts of
             TtsRejects \<Rightarrow> reschedule r 2000 w1
           | TtsResponse status playOk \<Rightarrow>
               if \<not> response_ok status then w1
               else
                 let a = audioCount w1;
                     w2 = w1\<lparr> audioCount := Suc a, objectUrls := insert a (objectUrls w1),
                              fillerAudios := insert a (fillerAudios w1),
                              st_thinkingAudio := Some a,
                              fillerTasks := fillerTasks w1 @ [(r, AudioHandlers a)] \<rparr>
                 in if playOk then w2\<lparr>playing := insert a (playing w2)\<rparr>
                    else reschedule r 2000 w2)
      | _ \<Rightarrow> w)"
| "filler_step (AudioEnded i d) w =
     (case task_at w i of
        Some (r, AudioHandlers a) \<Rightarrow>
          if a \<notin> playing w then w else
          (let w1 = remove_task i w;
               w2 = w1\<lparr> playing := playing w1 - {a}, objectUrls := objectUrls w1 - {a},
                        st_thinkingAudio := None \<rparr>
           in reschedule r (1000 + d mod 2000) w2)
      | _ \<Rightarrow> w)"
| "filler_step (AudioFailed i) w =
     (case task_at w i of
        Some (r, AudioHandlers a) \<Rightarrow>
          (let w1 = remove_task i w;
               w2 = w1\<lparr> playing := playing w1 - {a}, objectUrls := objectUrls w1 - {a},
                        st_thinkingAudio := None \<rparr>
           in reschedule r 2000 w2)
      | _ \<Rightarrow> w)"
| "filler_step (TimerFired i k) w =
     (case task_at w i of
        Some (r, ArmedTimer delay) \<Rightarrow> playRandomThinkingSound r k (remove_task i w)
      | _ \<Rightarrow> w)"


section \<open>The turn handler: \<^verbatim>\<open>handleLiveChatMessage\<close>\<close>

definition simpleGreetings :: "string list" where
  "simpleGreetings =
    [ ''hello'', ''hi'', ''hey'', ''good morning'', ''good afternoon'', ''good evening'',
      ''how are you'', ''what'' @ [CHR 0x27] @ ''s up'', ''greetings'', ''howdy'', ''yo'',
      ''thanks'', ''thank you'', ''stop'', ''cancel'', ''quit'', ''exit'', ''bye'', ''goodbye'',
      ''see you later'', ''who are you'', ''what is your name'', ''tell me about yourself'',
      ''help'', ''assist'', ''support'', ''can you help me'', ''can you assist me'' ]"

text \<open>
  \<^verbatim>\<open>simpleGreetings.some(greeting => messageText.toLowerCase().includes(greeting) &&
  messageText.length < 20)\<close> (lines 220-222).
\<close>

definition isSimpleGreeting :: "string \<Rightarrow> bool" where
  "isSimpleGreeting messageText =
     list_ex (\<lambda>greeting. js_includes (toLowerCase messageText) greeting \<and> length messageText < 20)
       simpleGreetings"

text \<open>
  The acknowledgment phrases (lines 225-236). The seventh and the ninth hold three code
  units above U+00FF where an apostrophe was meant; they are written as an apostrophe
  here.
\<close>

definition thinkingMessages :: "string list" where
  "thinkingMessages =
    [ ''Let me think about that for a moment... I want to give you the most thoughtful response I can.'',
      ''Hmm... I'' @ [CHR 0x27] @ ''m carefully going through everything you just said... making sure I don'' @ [CHR 0x27] @ ''t miss anything important.'',
      ''Hold on a second... I'' @ [CHR 0x27] @ ''m searching my knowledge to find something that truly helps you.'',
      ''Just a little moment please... I'' @ [CHR 0x27] @ ''m organizing my thoughts before giving you the best answer I can.'',
      ''I'' @ [CHR 0x27] @ ''m still thinking about that... it'' @ [CHR 0x27] @ ''s a great question, and I want to be sure I understand it fully.'',
      ''Let me look into that for you... this might take a few more seconds, but I'' @ [CHR 0x27] @ ''m on it.'',
      ''I'' @ [CHR 0x27] @ ''m reflecting on what you just said... trying to connect the dots before I speak.'',
      ''Give me just a bit more time... I want to be accurate, clear, and truly helpful in my reply.'',
      ''Alright... I'' @ [CHR 0x27] @ ''m close to finishing your answer... just reviewing the last piece of information.'',
      ''Thanks for your patience... I'' @ [CHR 0x27] @ ''m working carefully so I can support you the best way possible.'' ]"

definition apology :: string where
  "apology = ''Sorry, I couldn'' @ [CHR 0x27] @ ''t process your message. Please try again.''"

text \<open>
  What the outside does during one turn: the environment variable with the backend's
  URL, the backend's answer, the text-to-speech endpoint's answer to each of the three
  requests a turn can make, the two random indices, and whether the parent passed
  \<^verbatim>\<open>onAddMessage\<close>.
\<close>

record turn_env =
  apiUrl :: "string option"
  backend :: fetch_result
  thinkingChoice :: nat
  ttsThinking :: tts_result
  soundChoice :: nat
  ttsReply :: tts_result
  ttsApology :: tts_result
  hasOnAddMessage :: bool

definition emits :: "effect list \<Rightarrow> world \<Rightarrow> world" where
  "emits es w = w\<lparr>effects := effects w @ es\<rparr>"

text \<open>
  The \<^verbatim>\<open>try\<close> block (lines 211-268): what it throws, if anything, and the world it
  leaves. \<^verbatim>\<open>filterUrlsFromText(response)\<close> calls \<^verbatim>\<open>response.replace\<close>, which throws
  a TypeError when the backend's \<open>output\<close> is not a string.
\<close>

definition turn_try :: "render \<Rightarrow> string \<Rightarrow> turn_env \<Rightarrow> world \<Rightarrow> js_error option \<times> world" where
  "turn_try r messageText env w =
    (let w1 =
           (if \<not> isSimpleGreeting messageText then
              let randomThinking = thinkingMessages ! (thinkingChoice env mod length thinkingMessages);
                  w' = snd (speakText r randomThinking (ttsThinking env) w)
              in startContinuousThinking r (soundChoice env) w'
            else w);
         sent = sendMessage (apiUrl env) (session r) messageText (backend env);
         w2 = emits (fst sent) w1
     in case snd sent of
          Inl e \<Rightarrow> (Some e, w2)
        | Inr response \<Rightarrow>
            let w3 = stopContinuousThinking r w2;
                w4 = (if hasOnAddMessage env
                      then emits [AddMessage (JStr messageText) True, AddMessage response False] w3
                      else w3);
                w5 = w4\<lparr>st_isPlayingResponse := True\<rparr>
            in (case response of
                  JStr reply \<Rightarrow> speakText r (filterUrlsFromText reply) (ttsReply env) w5
                | _ \<Rightarrow> (Some TypeError, w5)))"

text \<open>The \<^verbatim>\<open>catch\<close> block (lines 270-273).\<close>

definition turn_catch :: "render \<Rightarrow> turn_env \<Rightarrow> world \<Rightarrow> js_error option \<times> world" where
  "turn_catch r env w =
     speakText r apology (ttsApology env)
       (stopContinuousThinking r (emit (ConsoleError ''Error in live chat:'') w))"

text \<open>The \<^verbatim>\<open>finally\<close> block (lines 274-279).\<close>

definition turn_finally :: "render \<Rightarrow> world \<Rightarrow> world" where
  "turn_finally r w =
     (stopContinuousThinking r w)\<lparr>st_isProcessingVoice := False, st_isPlayingResponse := False\<rparr>"

text \<open>The statements before the guard (lines 193-200).\<close>

definition turn_begin :: "render \<Rightarrow> world \<Rightarrow> world" where
  "turn_begin r w =
    (let w1 = (case currentAudio r of
                 Some a \<Rightarrow> (pause a w)\<lparr>st_currentAudio := None\<rparr>
               | None \<Rightarrow> w);
         w2 = stopContinuousThinking r w1
     in w2\<lparr>st_isPlayingResponse := False\<rparr>)"

text \<open>
  \<^verbatim>\<open>handleLiveChatMessage\<close> (lines 191-280): what the call throws to its caller (the
  promise it returns rejects with), and the world it leaves.
\<close>

definition handleLiveChatMessage ::
  "render \<Rightarrow> string \<Rightarrow> turn_env \<Rightarrow> world \<Rightarrow> js_error option \<times> world" where
  "handleLiveChatMessage r messageText env w =
    (let w3 = turn_begin r w
     in if trim messageText = [] \<or> isProcessingVoice r then (None, w3)
        else
          let w4 = w3\<lparr>st_isProcessingVoice := True\<rparr>;
              tried = turn_try r messageText env w4;
              caught = (case fst tried of
                          None \<Rightarrow> tried
                        | Some e \<Rightarrow> turn_catch r env (snd tried))
          in (fst caught, turn_finally r (snd caught)))"


section \<open>The effects and the mode switch\<close>

text \<open>
  The voice-interruption effect (lines 159-180). React runs it after a render whose
  \<^verbatim>\<open>isLiveChatMode\<close>, \<^verbatim>\<open>isListening\<close>, \<^verbatim>\<open>isPlayingResponse\<close> or \<^verbatim>\<open>currentAudio\<close>
  differs from the render before; \<open>r\<close> is that render.
\<close>

definition voiceInterruptionEffect :: "render \<Rightarrow> world \<Rightarrow> world" where
  "voiceInterruptionEffect r w =
    (if isLiveChatMode r \<and> isListening r \<and> isPlayingResponse r then
       let w1 = (case currentAudio r of
                   Some a \<Rightarrow> (pause a w)\<lparr>st_currentAudio := None\<rparr>
                 | None \<Rightarrow> w);
           w2 = stopContinuousThinking r w1;
           w3 = w2\<lparr>st_isPlayingResponse := False, st_isProcessingVoice := False\<rparr>;
           w4 = resetTranscript w3
       in w4\<lparr>st_liveChatTranscript := []\<rparr>
     else w)"

text \<open>
  The speech-recognition hook (useSpeechRecognition.ts): the \<^verbatim>\<open>start\<close> listener (line
  85), the \<^verbatim>\<open>error\<close> listener (lines 94-103) with the event's error code,
  \<^verbatim>\<open>startListening\<close> (lines 114-124) and \<^verbatim>\<open>stopListening\<close> (lines 126-132). The
  browser's \<^verbatim>\<open>recognition.start()\<close> throws when the recognizer is already started.
\<close>

definition onRecognitionStart :: "world \<Rightarrow> world" where
  "onRecognitionStart w = w\<lparr>st_isListening := True\<rparr>"

definition onRecognitionError :: "string \<Rightarrow> world \<Rightarrow> world" where
  "onRecognitionError code w =
    (let w1 = (if code \<noteq> ''aborted'' then emit (ConsoleError ''Speech recognition error:'') w else w)
     in if code = ''aborted'' then w1\<lparr>st_isListening := False\<rparr> else w1)"

definition recognition_start :: "world \<Rightarrow> js_error option \<times> world" where
  "recognition_start w =
     (if recognizerRunning w then (Some InvalidStateError, w)
      else (None, w\<lparr>recognizerRunning := True\<rparr>))"

definition startListening :: "render \<Rightarrow> world \<Rightarrow> js_error option \<times> world" where
  "startListening r w =
    (if hasRecognition w \<and> \<not> isListening r then
       (case recognition_start w of
          (None, w') \<Rightarrow> (None, w')
        | (Some e, w') \<Rightarrow> (None, emit (ConsoleError ''Failed to start recognition:'') w'))
     else (None, w))"

definition stopListening :: "render \<Rightarrow> world \<Rightarrow> world" where
  "stopListening r w =
    (if hasRecognition w \<and> isListening r
     then w\<lparr>recognizerRunning := False, st_isListening := False\<rparr>
     else w)"

text \<open>
  \<^verbatim>\<open>handleLiveChatToggle\<close> (lines 459-504); the voice-level meter and the text box are
  not part of the state modelled here.
\<close>

definition handleLiveChatToggle :: "render \<Rightarrow> world \<Rightarrow> world" where
  "handleLiveChatToggle r w =
    (if isLiveChatMode r then
       let w1 = (case currentAudio r of
                   Some a \<Rightarrow> (pause a w)\<lparr>st_currentAudio := None\<rparr>
                 | None \<Rightarrow> w);
           w2 = (case thinkingAudio r of
                   Some a \<Rightarrow> (pause a w1)\<lparr>st_thinkingAudio := None\<rparr>
                 | None \<Rightarrow> w1);
           w3 = w2\<lparr>st_isLiveChatMode := False\<rparr>;
           w4 = (if isListening r then stopListening r w3 else w3);
           w5 = stopContinuousThinking r w4;
           w6 = resetTranscript w5
       in w6\<lparr>st_isProcessingVoice := False, st_isPlayingResponse := False,
              st_liveChatTranscript := []\<rparr>
     else
       let w1 = w\<lparr>st_isLiveChatMode := True, st_liveChatTranscript := []\<rparr>
       in if speechSupported r then snd (startListening r w1) else w1)"


section \<open>The debounce: the live-chat transcript effect and its timer\<close>

text \<open>
  The effect of lines 136-156 and the timers it sets. A timer is its id, the time (in
  ms) at which it is due, and the render whose callback it holds; \<open>cleanup\<close> is the
  timer that the cleanup function returned by the effect's last run clears.
\<close>

record sched =
  component :: world
  timers :: "(nat \<times> nat \<times> render) list"
  nextTimer :: nat
  cleanup :: "nat option"

definition clearTimeout :: "nat \<Rightarrow> sched \<Rightarrow> sched" where
  "clearTimeout i s = s\<lparr>timers := filter (\<lambda>tm. fst tm \<noteq> i) (timers s)\<rparr>"

text \<open>
  One run of the effect at time \<open>now\<close>, after a render in which one of its dependencies
  changed: the cleanup of the run before, then the body with the new render.
\<close>

definition debounceEffect :: "nat \<Rightarrow> sched \<Rightarrow> sched" where
  "debounceEffect now s =
    (let s1 = (case cleanup s of Some i \<Rightarrow> clearTimeout i s | None \<Rightarrow> s);
         r = render_of (component s1)
     in if isLiveChatMode r \<and> transcript r \<noteq> [] \<and> \<not> isProcessingVoice r \<and> \<not> isPlayingResponse r
        then s1\<lparr> component := (component s1)\<lparr>st_liveChatTranscript := transcript r\<rparr>,
                 timers := timers s1 @ [(nextTimer s1, now + 1500, r)],
                 nextTimer := Suc (nextTimer s1),
                 cleanup := Some (nextTimer s1) \<rparr>
        else s1\<lparr>cleanup := None\<rparr>)"

text \<open>The timer's callback (lines 142-152), in the render \<open>r\<close> that set the timer.\<close>

definition debounceTimeout :: "render \<Rightarrow> turn_env \<Rightarrow> world \<Rightarrow> js_error option \<times> world" where
  "debounceTimeout r env w =
    (let finalText = trim (transcript r)
     in if finalText \<noteq> [] \<and> length finalText > 2 then
          (case handleLiveChatMessage r finalText env w of
             (None, w1) \<Rightarrow> (None, (resetTranscript w1)\<lparr>st_liveChatTranscript := []\<rparr>)
           | (Some e, w1) \<Rightarrow> (Some e, w1))
        else (None, w))"

text \<open>
  What happens to the component over time. \<open>TranscriptUpdate t txt\<close>: at time \<open>t\<close> the
  speech hook's \<open>transcript\<close> becomes \<open>txt\<close>; when that is the value it already has,
  React renders nothing and no effect runs. \<open>TimerFires t env\<close>: at time \<open>t\<close> the
  browser runs the first timer that is due, and the turn it starts meets \<open>env\<close>; the
  effect runs again afterwards when the callback changed one of its dependencies.
\<close>

datatype event = TranscriptUpdate nat string | TimerFires nat turn_env

fun event_time :: "event \<Rightarrow> nat" where
  "event_time (TranscriptUpdate t txt) = t"
| "event_time (TimerFires t env) = t"

definition deps :: "world \<Rightarrow> string \<times> bool \<times> bool \<times> bool" where
  "deps w = (st_transcript w, st_isLiveChatMode w, st_isProcessingVoice w, st_isPlayingResponse w)"

fun step :: "event \<Rightarrow> sched \<Rightarrow> sched" where
  "step (TranscriptUpdate t txt) s =
     (if txt = st_transcript (component s) then s
      else debounceEffect t (s\<lparr>component := (component s)\<lparr>st_transcript := txt\<rparr>\<rparr>))"
| "step (TimerFires t env) s =
     (case List.find (\<lambda>tm. fst (snd tm) \<le> t) (timers s) of
        None \<Rightarrow> s
      | Some (i, due, r) \<Rightarrow>
          let s1 = clearTimeout i s;
              w' = snd (debounceTimeout r env (component s1));
              s2 = s1\<lparr>component := w'\<rparr>
          in if deps w' \<noteq> deps (component s) then debounceEffect t s2 else s2)"

definition run :: "event list \<Rightarrow> sched \<Rightarrow> sched" where
  "run evs s = foldl (\<lambda>s e. step e s) s evs"

definition backend_requests :: "effect list \<Rightarrow> chat_message list" where
  "backend_requests es = concat (map (\<lambda>e. case e of BackendRequest m \<Rightarrow> [m] | _ \<Rightarrow> []) es)"

definition tts_requests :: "channel \<Rightarrow> effect list \<Rightarrow> string list" where
  "tts_requests ch es =
     concat (map (\<lambda>e. case e of TTSRequest c txt \<Rightarrow> (if c = ch then [txt] else []) | _ \<Rightarrow> []) es)"


section \<open>Concrete states and environments\<close>

text \<open>
  The component as mounted (the initial values of lines 42-56, in a browser with speech
  recognition), and after the user has switched live chat on and the recognizer has
  reported its start.
\<close>

definition mounted :: world where
  "mounted =
     \<lparr> st_isLiveChatMode = False, st_isProcessingVoice = False, st_isPlayingResponse = False,
       st_currentAudio = None, st_thinkingAudio = None, st_liveChatTranscript = [],
       st_session = ''session-1'', st_isListening = False, st_transcript = [],
       st_finalTranscript = [], hasRecognition = True, recognizerRunning = False,
       playing = {}, responseAudios = {}, fillerAudios = {}, objectUrls = {}, audioCount = 0,
       fillerTasks = [], effects = [] \<rparr>"

definition live :: world where
  "live = onRecognitionStart (handleLiveChatToggle (render_of mounted) mounted)"

text \<open>A turn in which every request succeeds, and the backend answers \<open>reply\<close>.\<close>

definition all_well :: "string \<Rightarrow> turn_env" where
  "all_well reply =
     \<lparr> apiUrl = Some ''https://n8n.example/webhook'',
       backend = HttpResponse 200 (Some (JObj [(''output'', JStr reply)])),
       thinkingChoice = 0, ttsThinking = TtsResponse 200 True, soundChoice = 0,
       ttsReply = TtsResponse 200 True, ttsApology = TtsResponse 200 True,
       hasOnAddMessage = True \<rparr>"


text \<open>
  A state in the middle of a turn: the reply is playing and marked as playing (after
  line 264), and the recognizer has already picked up the user's next words.
\<close>

definition speaking :: world where
  "speaking =
     snd (speakText (render_of live) ''It is sunny.'' (TtsResponse 200 True)
            (live\<lparr> st_isProcessingVoice := True, st_isPlayingResponse := True,
                   st_transcript := ''and tomorrow'', st_liveChatTranscript := ''and tomorrow'' \<rparr>))"


section \<open>Everything that can happen to the component\<close>

text \<open>
  One event in the life of the component, for properties that must hold whatever the
  order of events:
  \<^item> \<open>Turn r m env\<close>: \<^verbatim>\<open>handleLiveChatMessage\<close> of some render \<open>r\<close> is called with \<open>m\<close>;
  \<^item> \<open>Debounced r env\<close>: the debounce callback of some render \<open>r\<close> runs;
  \<^item> \<open>FillerCallback e\<close>: a callback the filler loop left with the browser runs;
  \<^item> \<open>Interruption\<close>: the voice-interruption effect runs after a render;
  \<^item> \<open>ToggleLiveChat\<close>: the user switches live chat on or off;
  \<^item> \<open>ResponseEnded a\<close>, \<open>ResponseFailed a\<close>: the handlers of a response audio element;
  \<^item> \<open>RecognitionStarted\<close>, \<open>RecognitionError code\<close>, \<open>Transcript txt\<close>: the speech hook's
    state changes.
\<close>

datatype sys_event =
    Turn render string turn_env
  | Debounced render turn_env
  | FillerCallback filler_event
  | Interruption
  | ToggleLiveChat
  | ResponseEnded nat
  | ResponseFailed nat
  | RecognitionStarted
  | RecognitionError string
  | Transcript string

fun sys_step :: "sys_event \<Rightarrow> world \<Rightarrow> world" where
  "sys_step (Turn r m env) w = snd (handleLiveChatMessage r m env w)"
| "sys_step (Debounced r env) w = snd (debounceTimeout r env w)"
| "sys_step (FillerCallback e) w = filler_step e w"
| "sys_step Interruption w = voiceInterruptionEffect (render_of w) w"
| "sys_step ToggleLiveChat w = handleLiveChatToggle (render_of w) w"
| "sys_step (ResponseEnded a) w = responseAudioEnded a w"
| "sys_step (ResponseFailed a) w = responseAudioError a w"
| "sys_step RecognitionStarted w = onRecognitionStart w"
| "sys_step (RecognitionError code) w = onRecognitionError code w"
| "sys_step (Transcript txt) w = w\<lparr>st_transcript := txt\<rparr>"

definition sys_run :: "sys_event list \<Rightarrow> world \<Rightarrow> world" where
  "sys_run evs w = foldl (\<lambda>w e. sys_step e w) w evs"


section \<open>Bursts of transcript updates\<close>

text \<open>
  The transcript updates among the events, in order; \<open>spaced\<close>: consecutive updates are
  less than 1500 ms apart; \<open>changing x\<close>: every update changes the transcript (the first
  one changes \<open>x\<close>), as an update of React state does; \<open>calm\<close>: live-chat mode with no
  turn in progress and no timer pending.
\<close>

fun updates :: "event list \<Rightarrow> (nat \<times> string) list" where
  "updates [] = []"
| "updates (TranscriptUpdate t txt # es) = (t, txt) # updates es"
| "updates (TimerFires t env # es) = updates es"

fun spaced :: "(nat \<times> string) list \<Rightarrow> bool" where
  "spaced [] = True"
| "spaced [u] = True"
| "spaced (u # v # us) = (fst v < fst u + 1500 \<and> spaced (v # us))"

fun changing :: "string \<Rightarrow> (nat \<times> string) list \<Rightarrow> bool" where
  "changing x [] = True"
| "changing x (u # us) = (snd u \<noteq> x \<and> changing (snd u) us)"

definition calm :: "sched \<Rightarrow> bool" where
  "calm s = (timers s = [] \<and> cleanup s = None \<and> st_isLiveChatMode (component s)
     \<and> \<not> st_isProcessingVoice (component s) \<and> \<not> st_isPlayingResponse (component s))"

text \<open>
  The two phases after an update \<open>(tn, xn)\<close>, seen from the state \<open>s0\<close> before the burst.
  \<open>waiting\<close>: nothing has been sent, and the one pending timer (none when \<open>xn\<close> is
  empty) is due 1500 ms after \<open>tn\<close> and holds \<open>xn\<close>. \<open>settled\<close>: the timer has fired; no
  timer is pending, and what has been sent is nothing or the one request for \<open>xn\<close>.
\<close>

definition request_for :: "sched \<Rightarrow> string \<Rightarrow> chat_message" where
  "request_for s0 xn =
     \<lparr>sessionId = st_session (component s0), action = ''sendMessage'', chatInput = trim xn\<rparr>"

definition waiting :: "sched \<Rightarrow> nat \<Rightarrow> string \<Rightarrow> sched \<Rightarrow> bool" where
  "waiting s0 tn xn s =
    (backend_requests (effects (component s)) = backend_requests (effects (component s0))
     \<and> st_transcript (component s) = xn
     \<and> st_session (component s) = st_session (component s0)
     \<and> st_isLiveChatMode (component s)
     \<and> \<not> st_isProcessingVoice (component s) \<and> \<not> st_isPlayingResponse (component s)
     \<and> (if xn = [] then timers s = [] \<and> cleanup s = None
         else timers s = [(nextTimer s - 1, tn + 1500, render_of (component s))]
              \<and> cleanup s = Some (nextTimer s - 1)))"

definition settled :: "sched \<Rightarrow> string \<Rightarrow> sched \<Rightarrow> bool" where
  "settled s0 xn s =
    (timers s = []
     \<and> backend_requests (effects (component s))
         \<in> {backend_requests (effects (component s0)),
            backend_requests (effects (component s0)) @ [request_for s0 xn]})"


text \<open>Live chat just switched on: no timer has been set yet.\<close>

definition live_sched :: sched where
  "live_sched = \<lparr>component = live, timers = [], nextTimer = 0, cleanup = None\<rparr>"


section \<open>Theorems: \<^verbatim>\<open>sendMessage\<close>\<close>

text \<open>
  C10, as stated: whenever \<open>sendMessage\<close> resolves, its result is a non-empty string.
  This fails on a body whose \<open>output\<close> is truthy and not a string: the check on line 42 is
  a truthiness check, and line 43 returns the property as it is.
\<close>

theorem sendMessage_nonstring_counterexample:
  "\<not> (\<exists>s. snd (sendMessage (Some ''https://n8n.example/webhook'') ''session-1'' ''hi''
          (HttpResponse 200 (Some (JObj [(''output'', JNum 42)])))) = Inr (JStr s))"
  by (simp add: sendMessage_def response_ok_def)

text \<open>
  C10, amended: \<open>sendMessage\<close> resolves exactly when the URL is configured, the status
  is 2xx, the body parses to an object (or array) and its \<open>output\<close> property is truthy;
  the result is that property, so it is a non-empty string whenever it is a string. A 2xx
  body without \<open>output\<close>, or with an \<open>output\<close> that is the empty string, \<open>null\<close>, \<open>false\<close>
  or \<open>0\<close>, is rejected with 'Invalid response format'; a status outside 2xx is rejected
  with the HTTP error.
\<close>

theorem sendMessage_resolves_truthy_output:
  "((snd (sendMessage cfg sid message resp) = Inr v) =
      (\<exists>url status data. cfg = Some url \<and> url \<noteq> [] \<and> resp = HttpResponse status (Some data)
         \<and> response_ok status \<and> truthy data \<and> typeof_object data
         \<and> property data ''output'' = Some v \<and> truthy v))
   \<and> snd (sendMessage cfg sid message resp) \<noteq> Inr (JStr [])
   \<and> (cfg = Some url \<and> url \<noteq> [] \<and> response_ok status
        \<and> property data ''output'' \<in> {None, Some (JStr []), Some JNull, Some (JBool False), Some (JNum 0)}
      \<longrightarrow> snd (sendMessage cfg sid message (HttpResponse status (Some data)))
            = Inl InvalidResponseFormat)
   \<and> (cfg = Some url \<and> url \<noteq> [] \<and> \<not> response_ok status
      \<longrightarrow> snd (sendMessage cfg sid message (HttpResponse status body)) = Inl (HttpError status))"
  by (auto simp: sendMessage_def Let_def split: fetch_result.splits option.splits if_splits)

theorem sendMessage_resolves_truthy_output_witness:
  "snd (sendMessage (Some ''https://n8n.example/webhook'') ''session-1'' ''hi''
          (HttpResponse 200 (Some (JObj [(''output'', JStr ''Hello!'')])))) = Inr (JStr ''Hello!'')
   \<and> snd (sendMessage (Some ''https://n8n.example/webhook'') ''session-1'' ''hi''
          (HttpResponse 200 (Some (JObj [(''output'', JStr [])])))) = Inl InvalidResponseFormat
   \<and> snd (sendMessage (Some ''https://n8n.example/webhook'') ''session-1'' ''hi''
          (HttpResponse 500 None)) = Inl (HttpError 500)"
  using sendMessage_resolves_truthy_output
    [of "Some ''https://n8n.example/webhook''" "''session-1''" "''hi''"
        "HttpResponse 200 (Some (JObj [(''output'', JStr ''Hello!'')]))" "JStr ''Hello!''"
        "''https://n8n.example/webhook''" 200 "JObj [(''output'', JStr [])]"]
    sendMessage_resolves_truthy_output
    [of "Some ''https://n8n.example/webhook''" "''session-1''" "''hi''"
        "HttpResponse 500 None" "JNull" "''https://n8n.example/webhook''" 500 "JNull" None]
  by (simp add: response_ok_def)


section \<open>Lemmas: effects of the parts of a turn\<close>

lemma backend_requests_append [simp]:
  "backend_requests (xs @ ys) = backend_requests xs @ backend_requests ys"
  by (simp add: backend_requests_def)

lemma tts_requests_append [simp]:
  "tts_requests ch (xs @ ys) = tts_requests ch xs @ tts_requests ch ys"
  by (simp add: tts_requests_def)

lemma backend_requests_simps [simp]:
  "backend_requests [] = []"
  "backend_requests (BackendRequest m # es) = m # backend_requests es"
  "backend_requests (TTSRequest ch txt # es) = backend_requests es"
  "backend_requests (ConsoleError l # es) = backend_requests es"
  "backend_requests (AddMessage v u # es) = backend_requests es"
  by (simp_all add: backend_requests_def)

lemma tts_requests_simps [simp]:
  "tts_requests ch [] = []"
  "tts_requests ch (BackendRequest m # es) = tts_requests ch es"
  "tts_requests ch (TTSRequest c txt # es) = (if c = ch then txt # tts_requests ch es else tts_requests ch es)"
  "tts_requests ch (ConsoleError l # es) = tts_requests ch es"
  "tts_requests ch (AddMessage v u # es) = tts_requests ch es"
  by (simp_all add: tts_requests_def)

lemma trim_Nil [simp]: "trim [] = []"
  by (simp add: trim_def)

text \<open>What \<open>speakText\<close> adds to the effects.\<close>

lemma effects_stopContinuousThinking [simp]:
  "effects (stopContinuousThinking r w) = effects w"
  by (simp add: stopContinuousThinking_def pause_def split: option.splits)

lemma speakText_never_throws [simp]: "fst (speakText r txt tts w) = None"
  by (simp add: speakText_def split: prod.splits option.splits)

lemma backend_requests_speakText [simp]:
  "backend_requests (effects (snd (speakText r txt tts w))) = backend_requests (effects w)"
  by (simp add: speakText_def speakText_try_def emit_def pause_def Let_def
      split: prod.splits option.splits tts_result.splits)

lemma tts_requests_speakText:
  "tts_requests Response (effects (snd (speakText r txt tts w))) =
     tts_requests Response (effects w) @ (if trim txt = [] then [] else [txt])"
  "tts_requests Filler (effects (snd (speakText r txt tts w))) = tts_requests Filler (effects w)"
  by (auto simp add: speakText_def speakText_try_def emit_def pause_def Let_def
      split: prod.splits option.splits tts_result.splits)

lemma startContinuousThinking_inert:
  "\<not> isProcessingVoice r \<Longrightarrow> startContinuousThinking r k w = w"
  by (simp add: startContinuousThinking_def playRandomThinkingSound_def)


lemma thinkingMessages_spoken:
  "trim (thinkingMessages ! (k mod length thinkingMessages)) \<noteq> []"
proof -
  have "\<forall>t \<in> set thinkingMessages. trim t \<noteq> []"
    by (simp add: thinkingMessages_def trim_def is_ws_def)
  moreover have "k mod length thinkingMessages < length thinkingMessages"
    by (simp add: thinkingMessages_def)
  ultimately show ?thesis
    using nth_mem by blast
qed

lemma apology_spoken: "trim apology \<noteq> []"
  by (simp add: apology_def trim_def is_ws_def)

text \<open>The requests of one turn.\<close>

lemma backend_requests_turn_try:
  "backend_requests (effects (snd (turn_try r m env w))) =
     backend_requests (effects w) @ backend_requests (fst (sendMessage (apiUrl env) (session r) m (backend env)))"
  by (simp add: turn_try_def Let_def emits_def startContinuousThinking_def playRandomThinkingSound_def emit_def
      split: sum.splits json.splits)

lemma effects_turn_finally [simp]: "effects (turn_finally r w) = effects w"
  by (simp add: turn_finally_def)

lemma effects_turn_begin [simp]: "effects (turn_begin r w) = effects w"
  by (simp add: turn_begin_def pause_def Let_def split: option.splits)

lemma backend_requests_turn_catch [simp]:
  "backend_requests (effects (snd (turn_catch r env w))) = backend_requests (effects w)"
  by (simp add: turn_catch_def emit_def)

lemma sendMessage_requests:
  "backend_requests (fst (sendMessage cfg sid m resp)) =
     (if cfg = None \<or> cfg = Some [] then []
      else [\<lparr>sessionId = sid, action = ''sendMessage'', chatInput = m\<rparr>])"
  by (simp add: sendMessage_def Let_def split: sum.splits)

lemma backend_requests_handleLiveChatMessage:
  "backend_requests (effects (snd (handleLiveChatMessage r m env w))) =
     backend_requests (effects w) @
       (if trim m = [] \<or> isProcessingVoice r \<or> apiUrl env = None \<or> apiUrl env = Some [] then []
        else [\<lparr>sessionId = session r, action = ''sendMessage'', chatInput = m\<rparr>])"
  by (simp add: handleLiveChatMessage_def Let_def backend_requests_turn_try
      sendMessage_requests split: option.splits)

lemma handleLiveChatMessage_never_throws [simp]:
  "fst (handleLiveChatMessage r m env w) = None"
  by (simp add: handleLiveChatMessage_def Let_def turn_catch_def split: option.splits)

lemma trim_ends:
  assumes "trim s \<noteq> []"
  shows "\<not> is_ws (hd (trim s))" and "\<not> is_ws (last (trim s))"
proof -
  define d where "d = dropWhile is_ws s"
  define u where "u = dropWhile is_ws (rev d)"
  have t: "trim s = rev u" by (simp add: trim_def u_def d_def)
  with assms have u: "u \<noteq> []" by simp
  then have "\<not> is_ws (hd u)" unfolding u_def by (rule hd_dropWhile)
  then show "\<not> is_ws (last (trim s))" using u by (simp add: t last_rev)
  have "rev d = takeWhile is_ws (rev d) @ u" by (simp add: u_def)
  then have "last (rev d) = last u" using u by (metis last_appendR)
  moreover have "d \<noteq> []" using u u_def by auto
  ultimately have "last u = hd d" by (simp add: last_rev)
  moreover have "\<not> is_ws (hd d)" using \<open>d \<noteq> []\<close> unfolding d_def by (rule hd_dropWhile)
  ultimately show "\<not> is_ws (hd (trim s))" using u by (simp add: t hd_rev)
qed

lemma trim_trim [simp]: "trim (trim s) = trim s"
proof (cases "trim s = []")
  case True
  then show ?thesis by simp
next
  case False
  then obtain c cs where c: "trim s = c # cs" by (cases "trim s") auto
  have "\<not> is_ws c" using trim_ends(1) [OF False] c by simp
  then have 1: "dropWhile is_ws (trim s) = trim s" by (simp add: c)
  have "rev (trim s) \<noteq> []" using False by simp
  then obtain e es where e: "rev (trim s) = e # es" by (cases "rev (trim s)") auto
  have "\<not> is_ws (hd (rev (trim s)))" using trim_ends(2) [OF False] False by (simp add: hd_rev)
  then have 2: "dropWhile is_ws (rev (trim s)) = rev (trim s)" by (simp add: e)
  show ?thesis
    unfolding trim_def [of "trim s"] 1 2 by simp
qed

lemma live_fields:
  "live =
     \<lparr> st_isLiveChatMode = True, st_isProcessingVoice = False, st_isPlayingResponse = False,
       st_currentAudio = None, st_thinkingAudio = None, st_liveChatTranscript = [],
       st_session = ''session-1'', st_isListening = True, st_transcript = [],
       st_finalTranscript = [], hasRecognition = True, recognizerRunning = True,
       playing = {}, responseAudios = {}, fillerAudios = {}, objectUrls = {}, audioCount = 0,
       fillerTasks = [], effects = [] \<rparr>"
  by (simp add: live_def mounted_def handleLiveChatToggle_def render_of_def startListening_def
      recognition_start_def onRecognitionStart_def)


section \<open>Theorems: the noise floor\<close>

text \<open>
  C3: when the debounce timer fires on a snapshot whose trimmed text has at most 2
  characters, the callback does nothing at all, so no request reaches the backend; a
  request is added only for a snapshot whose trimmed text is longer than 2, and such a
  snapshot (the effect arms a timer only in a render that is not processing, and the
  backend's URL being configured) is dispatched with exactly its trimmed text.
\<close>

theorem noise_floor:
  "(length (trim (transcript r)) \<le> 2 \<longrightarrow> debounceTimeout r env w = (None, w))
   \<and> (backend_requests (effects (snd (debounceTimeout r env w))) \<noteq> backend_requests (effects w)
        \<longrightarrow> 2 < length (trim (transcript r)))
   \<and> (2 < length (trim (transcript r)) \<and> \<not> isProcessingVoice r \<and> apiUrl env = Some u \<and> u \<noteq> []
        \<longrightarrow> backend_requests (effects (snd (debounceTimeout r env w))) =
              backend_requests (effects w) @
                [\<lparr>sessionId = session r, action = ''sendMessage'', chatInput = trim (transcript r)\<rparr>])"
proof -
  have a: "length (trim (transcript r)) \<le> 2 \<Longrightarrow> debounceTimeout r env w = (None, w)"
    by (simp add: debounceTimeout_def Let_def)
  have b: "2 < length (trim (transcript r)) \<Longrightarrow>
      backend_requests (effects (snd (debounceTimeout r env w))) =
        backend_requests (effects (snd (handleLiveChatMessage r (trim (transcript r)) env w)))"
    by (auto simp add: debounceTimeout_def Let_def resetTranscript_def split: prod.splits option.splits)
  have c: "2 < length (trim (transcript r)) \<Longrightarrow> trim (transcript r) \<noteq> []"
    by auto
  have d: "backend_requests (effects (snd (debounceTimeout r env w))) \<noteq> backend_requests (effects w)
      \<Longrightarrow> 2 < length (trim (transcript r))"
    using a by (cases "2 < length (trim (transcript r))") auto
  have e: "2 < length (trim (transcript r)) \<Longrightarrow> \<not> isProcessingVoice r \<Longrightarrow> apiUrl env = Some u \<Longrightarrow> u \<noteq> []
      \<Longrightarrow> backend_requests (effects (snd (debounceTimeout r env w))) =
              backend_requests (effects w) @
                [\<lparr>sessionId = session r, action = ''sendMessage'', chatInput = trim (transcript r)\<rparr>]"
    using b c by (simp add: backend_requests_handleLiveChatMessage)
  show ?thesis
    using a d e by blast
qed

theorem noise_floor_witness:
  "debounceTimeout (render_of (live\<lparr>st_transcript := ''hi ''\<rparr>)) (all_well ''Hello!'')
       (live\<lparr>st_transcript := ''hi ''\<rparr>)
     = (None, live\<lparr>st_transcript := ''hi ''\<rparr>)
   \<and> backend_requests (effects (snd (debounceTimeout
         (render_of (live\<lparr>st_transcript := '' hey there ''\<rparr>)) (all_well ''Hello!'')
         (live\<lparr>st_transcript := '' hey there ''\<rparr>))))
     = [\<lparr>sessionId = ''session-1'', action = ''sendMessage'', chatInput = ''hey there''\<rparr>]"
  using noise_floor [of "render_of (live\<lparr>st_transcript := ''hi ''\<rparr>)" "all_well ''Hello!''"
          "live\<lparr>st_transcript := ''hi ''\<rparr>" "''https://n8n.example/webhook''"]
        noise_floor [of "render_of (live\<lparr>st_transcript := '' hey there ''\<rparr>)" "all_well ''Hello!''"
          "live\<lparr>st_transcript := '' hey there ''\<rparr>" "''https://n8n.example/webhook''"]
  by (simp add: live_fields render_of_def all_well_def trim_def is_ws_def)


section \<open>Theorems: the speech-recognition hook\<close>

text \<open>
  C9: an \<open>aborted\<close> error sets the listening flag to false and logs nothing; an error
  with any other code is logged and changes nothing else (the listening flag and the
  transcript are as before); \<open>startListening\<close> never throws, and a \<^verbatim>\<open>start()\<close> that
  fails because the recognizer is already running is logged.
\<close>

theorem recognition_errors_classified:
  "st_isListening (onRecognitionError ''aborted'' w) = False
   \<and> effects (onRecognitionError ''aborted'' w) = effects w
   \<and> (code \<noteq> ''aborted'' \<longrightarrow>
        onRecognitionError code w = emit (ConsoleError ''Speech recognition error:'') w
        \<and> st_isListening (onRecognitionError code w) = st_isListening w
        \<and> st_transcript (onRecognitionError code w) = st_transcript w
        \<and> st_finalTranscript (onRecognitionError code w) = st_finalTranscript w)
   \<and> fst (startListening r w) = None
   \<and> (hasRecognition w \<and> \<not> isListening r \<and> recognizerRunning w \<longrightarrow>
        snd (startListening r w) = emit (ConsoleError ''Failed to start recognition:'') w)"
  by (simp add: onRecognitionError_def emit_def startListening_def recognition_start_def
      split: prod.splits)

theorem recognition_errors_classified_witness:
  "st_isListening (onRecognitionError ''aborted'' live) = False
   \<and> effects (onRecognitionError ''aborted'' live) = []
   \<and> st_isListening (onRecognitionError ''no-speech'' live) = True
   \<and> st_transcript (onRecognitionError ''no-speech'' (live\<lparr>st_transcript := ''hello''\<rparr>)) = ''hello''
   \<and> effects (onRecognitionError ''no-speech'' live) = [ConsoleError ''Speech recognition error:'']
   \<and> startListening (render_of mounted) (handleLiveChatToggle (render_of mounted) mounted)
       = (None, emit (ConsoleError ''Failed to start recognition:'')
                  (handleLiveChatToggle (render_of mounted) mounted))"
  using recognition_errors_classified [of live "''no-speech''" "render_of mounted"]
    recognition_errors_classified [of "live\<lparr>st_transcript := ''hello''\<rparr>" "''no-speech''" "render_of mounted"]
    recognition_errors_classified [of "handleLiveChatToggle (render_of mounted) mounted"
       "''no-speech''" "render_of mounted"]
  by (simp add: live_fields emit_def mounted_def handleLiveChatToggle_def render_of_def
      startListening_def recognition_start_def prod_eq_iff)


section \<open>Theorems: barge-in\<close>



lemma speaking_fields:
  "speaking =
     \<lparr> st_isLiveChatMode = True, st_isProcessingVoice = True, st_isPlayingResponse = True,
       st_currentAudio = Some 0, st_thinkingAudio = None, st_liveChatTranscript = ''and tomorrow'',
       st_session = ''session-1'', st_isListening = True, st_transcript = ''and tomorrow'',
       st_finalTranscript = [], hasRecognition = True, recognizerRunning = True,
       playing = {0}, responseAudios = {0}, fillerAudios = {}, objectUrls = {0}, audioCount = 1,
       fillerTasks = [], effects = [TTSRequest Response ''It is sunny.''] \<rparr>"
  by (simp add: speaking_def live_fields speakText_def speakText_try_def render_of_def emit_def
      trim_def is_ws_def response_ok_def Let_def)



section \<open>Lemmas: what one turn speaks, and its filler loop\<close>

lemma fillerTasks_speakText [simp]:
  "fillerTasks (snd (speakText r txt tts w)) = fillerTasks w"
  by (simp add: speakText_def speakText_try_def emit_def pause_def Let_def
      split: prod.splits option.splits tts_result.splits)

lemma fillerTasks_stopContinuousThinking [simp]:
  "fillerTasks (stopContinuousThinking r w) = fillerTasks w"
  by (simp add: stopContinuousThinking_def pause_def split: option.splits)

lemma tts_requests_turn_try:
  "tts_requests Response (effects (snd (turn_try r m env w))) =
     tts_requests Response (effects w)
     @ (if isSimpleGreeting m then []
        else [thinkingMessages ! (thinkingChoice env mod length thinkingMessages)])
     @ (case snd (sendMessage (apiUrl env) (session r) m (backend env)) of
          Inr (JStr reply) \<Rightarrow>
            if trim (filterUrlsFromText reply) = [] then [] else [filterUrlsFromText reply]
        | _ \<Rightarrow> [])"
proof -
  have sm: "tts_requests Response (fst (sendMessage (apiUrl env) (session r) m (backend env))) = []"
    by (simp add: sendMessage_def Let_def split: sum.splits)
  show ?thesis
    by (simp add: turn_try_def Let_def emits_def startContinuousThinking_def
        playRandomThinkingSound_def emit_def tts_requests_speakText thinkingMessages_spoken sm
        split: sum.splits json.splits)
qed

lemma tts_requests_turn_catch:
  "tts_requests Response (effects (snd (turn_catch r env w))) =
     tts_requests Response (effects w) @ [apology]"
  by (simp add: turn_catch_def emit_def tts_requests_speakText apology_spoken)

lemma turn_try_throws:
  "fst (turn_try r m env w) =
     (case snd (sendMessage (apiUrl env) (session r) m (backend env)) of
        Inl e \<Rightarrow> Some e
      | Inr (JStr reply) \<Rightarrow> None
      | Inr _ \<Rightarrow> Some TypeError)"
  by (simp add: turn_try_def Let_def split: sum.splits json.splits)

lemma tts_requests_handleLiveChatMessage:
  assumes "\<not> isProcessingVoice r" "trim m \<noteq> []"
  shows "tts_requests Response (effects (snd (handleLiveChatMessage r m env w))) =
     tts_requests Response (effects w)
     @ (if isSimpleGreeting m then []
        else [thinkingMessages ! (thinkingChoice env mod length thinkingMessages)])
     @ (case snd (sendMessage (apiUrl env) (session r) m (backend env)) of
          Inr (JStr reply) \<Rightarrow>
            if trim (filterUrlsFromText reply) = [] then [] else [filterUrlsFromText reply]
        | _ \<Rightarrow> [apology])"
proof -
  let ?w4 = "(turn_begin r w)\<lparr>st_isProcessingVoice := True\<rparr>"
  let ?out = "snd (sendMessage (apiUrl env) (session r) m (backend env))"
  have h: "handleLiveChatMessage r m env w =
      (let tried = turn_try r m env ?w4;
           caught = (case fst tried of None \<Rightarrow> tried | Some e \<Rightarrow> turn_catch r env (snd tried))
       in (fst caught, turn_finally r (snd caught)))"
    using assms by (simp add: handleLiveChatMessage_def Let_def)
  show ?thesis
  proof (cases "fst (turn_try r m env ?w4)")
    case None
    then obtain reply where "?out = Inr (JStr reply)"
      by (auto simp add: turn_try_throws split: sum.splits json.splits)
    then show ?thesis
      using None by (simp add: h Let_def tts_requests_turn_try)
  next
    case (Some e)
    then have "(case ?out of Inr (JStr reply) \<Rightarrow>
            if trim (filterUrlsFromText reply) = [] then [] else [filterUrlsFromText reply]
        | _ \<Rightarrow> [apology]) = [apology]"
      and "(case ?out of Inr (JStr reply) \<Rightarrow>
            if trim (filterUrlsFromText reply) = [] then [] else [filterUrlsFromText reply]
        | _ \<Rightarrow> []) = []"
      by (auto simp add: turn_try_throws split: sum.splits json.splits)
    then show ?thesis
      using Some by (simp add: h Let_def tts_requests_turn_try tts_requests_turn_catch)
  qed
qed

text \<open>The filler loop of a turn: nothing is requested and nothing is left with the browser.\<close>

lemma turn_try_no_filler:
  assumes "\<not> isProcessingVoice r"
  shows "fillerTasks (snd (turn_try r m env w)) = fillerTasks w"
    and "tts_requests Filler (effects (snd (turn_try r m env w))) = tts_requests Filler (effects w)"
    and "fillerAudios (snd (turn_try r m env w)) = fillerAudios w"
proof -
  have sm: "tts_requests Filler (fst (sendMessage (apiUrl env) (session r) m (backend env))) = []"
    by (simp add: sendMessage_def Let_def split: sum.splits)
  have fa: "\<And>txt tts v. fillerAudios (snd (speakText r txt tts v)) = fillerAudios v"
    by (simp add: speakText_def speakText_try_def emit_def pause_def Let_def
      split: prod.splits option.splits tts_result.splits)
  have fs: "\<And>v. fillerAudios (stopContinuousThinking r v) = fillerAudios v"
    by (simp add: stopContinuousThinking_def pause_def split: option.splits)
  show "fillerTasks (snd (turn_try r m env w)) = fillerTasks w"
    using assms by (simp add: turn_try_def Let_def emits_def startContinuousThinking_inert
        split: sum.splits json.splits)
  show "tts_requests Filler (effects (snd (turn_try r m env w))) = tts_requests Filler (effects w)"
    using assms by (simp add: turn_try_def Let_def emits_def startContinuousThinking_inert
        tts_requests_speakText sm split: sum.splits json.splits)
  show "fillerAudios (snd (turn_try r m env w)) = fillerAudios w"
    using assms by (simp add: turn_try_def Let_def emits_def startContinuousThinking_inert fa fs
        split: sum.splits json.splits)
qed

lemma turn_begin_no_filler [simp]:
  "fillerTasks (turn_begin r w) = fillerTasks w"
  "fillerAudios (turn_begin r w) = fillerAudios w"
  by (simp_all add: turn_begin_def stopContinuousThinking_def pause_def Let_def split: option.splits)

lemma turn_catch_no_filler [simp]:
  "fillerTasks (snd (turn_catch r env w)) = fillerTasks w"
  "tts_requests Filler (effects (snd (turn_catch r env w))) = tts_requests Filler (effects w)"
  "fillerAudios (snd (turn_catch r env w)) = fillerAudios w"
proof -
  have fa: "\<And>txt tts v. fillerAudios (snd (speakText r txt tts v)) = fillerAudios v"
    by (simp add: speakText_def speakText_try_def emit_def pause_def Let_def
      split: prod.splits option.splits tts_result.splits)
  have fs: "\<And>v. fillerAudios (stopContinuousThinking r v) = fillerAudios v"
    by (simp add: stopContinuousThinking_def pause_def split: option.splits)
  show "fillerTasks (snd (turn_catch r env w)) = fillerTasks w"
    by (simp add: turn_catch_def emit_def)
  show "tts_requests Filler (effects (snd (turn_catch r env w))) = tts_requests Filler (effects w)"
    by (simp add: turn_catch_def emit_def tts_requests_speakText)
  show "fillerAudios (snd (turn_catch r env w)) = fillerAudios w"
    by (simp add: turn_catch_def emit_def fa fs)
qed

lemma turn_finally_no_filler [simp]:
  "fillerTasks (turn_finally r w) = fillerTasks w"
  "fillerAudios (turn_finally r w) = fillerAudios w"
  by (simp_all add: turn_finally_def stopContinuousThinking_def pause_def split: option.splits)

lemma handleLiveChatMessage_no_filler:
  "fillerTasks (snd (handleLiveChatMessage r m env w)) = fillerTasks w"
  "tts_requests Filler (effects (snd (handleLiveChatMessage r m env w))) = tts_requests Filler (effects w)"
  "fillerAudios (snd (handleLiveChatMessage r m env w)) = fillerAudios w"
proof -
  let ?w4 = "(turn_begin r w)\<lparr>st_isProcessingVoice := True\<rparr>"
  show "fillerTasks (snd (handleLiveChatMessage r m env w)) = fillerTasks w"
    by (cases "fst (turn_try r m env ?w4)")
       (simp_all add: handleLiveChatMessage_def Let_def turn_try_no_filler)
  show "tts_requests Filler (effects (snd (handleLiveChatMessage r m env w))) = tts_requests Filler (effects w)"
    by (cases "fst (turn_try r m env ?w4)")
       (simp_all add: handleLiveChatMessage_def Let_def turn_try_no_filler)
  show "fillerAudios (snd (handleLiveChatMessage r m env w)) = fillerAudios w"
    by (cases "fst (turn_try r m env ?w4)")
       (simp_all add: handleLiveChatMessage_def Let_def turn_try_no_filler)
qed

lemma handleLiveChatMessage_flags:
  "\<not> st_isPlayingResponse (snd (handleLiveChatMessage r m env w))"
  "\<not> isProcessingVoice r \<Longrightarrow> trim m \<noteq> [] \<Longrightarrow> \<not> st_isProcessingVoice (snd (handleLiveChatMessage r m env w))"
proof -
  have f: "\<And>v. \<not> st_isPlayingResponse (turn_finally r v) \<and> \<not> st_isProcessingVoice (turn_finally r v)"
    by (simp add: turn_finally_def)
  have b: "\<not> st_isPlayingResponse (turn_begin r w)"
    by (simp add: turn_begin_def Let_def)
  show "\<not> st_isPlayingResponse (snd (handleLiveChatMessage r m env w))"
    using f b by (simp add: handleLiveChatMessage_def Let_def)
  show "\<not> isProcessingVoice r \<Longrightarrow> trim m \<noteq> [] \<Longrightarrow> \<not> st_isProcessingVoice (snd (handleLiveChatMessage r m env w))"
    using f by (simp add: handleLiveChatMessage_def Let_def)
qed

lemma greeting_examples:
  "isSimpleGreeting ''good morning''"
  "\<not> isSimpleGreeting ''What is the weather today''"
  by code_simp+

lemma trim_examples:
  "trim ''good morning'' = ''good morning''"
  "trim ''What is the weather today'' = ''What is the weather today''"
  "trim ''Hello'' = ''Hello''"
  by (simp_all add: trim_def is_ws_def)

lemma filterUrls_examples:
  "filterUrlsFromText ''Hello'' = ''Hello''"
  "filterUrlsFromText ''It is sunny.'' = ''It is sunny.''"
  by (simp_all add: filterUrlsFromText_def urlRegex_def wsRegex_def trim_def is_ws_def non_ws_def
      is_alpha_def is_label_def)


section \<open>Theorems: failures during a turn\<close>

text \<open>
  C5, as stated: after every failure of the backend request or of speech synthesis the
  apology is spoken instead of a reply. This fails for a failure of speech synthesis:
  \<^verbatim>\<open>speakText\<close> catches and logs what its own request throws (lines 343-345), so the
  \<^verbatim>\<open>catch\<close> block of the turn never runs. Here the backend answers \<open>Hello\<close>, the
  text-to-speech endpoint answers the request for it with status 500, and the turn ends
  with that one request made, no request for the apology, and nothing playing.
\<close>

theorem synthesis_failure_counterexample:
  "tts_requests Response (effects (snd (handleLiveChatMessage
       (render_of (live\<lparr>st_transcript := ''good morning''\<rparr>)) ''good morning''
       ((all_well ''Hello'')\<lparr>ttsReply := TtsResponse 500 True\<rparr>)
       (live\<lparr>st_transcript := ''good morning''\<rparr>)))) = [''Hello'']
   \<and> apology \<notin> set (tts_requests Response (effects (snd (handleLiveChatMessage
       (render_of (live\<lparr>st_transcript := ''good morning''\<rparr>)) ''good morning''
       ((all_well ''Hello'')\<lparr>ttsReply := TtsResponse 500 True\<rparr>)
       (live\<lparr>st_transcript := ''good morning''\<rparr>)))))
   \<and> playing (snd (handleLiveChatMessage
       (render_of (live\<lparr>st_transcript := ''good morning''\<rparr>)) ''good morning''
       ((all_well ''Hello'')\<lparr>ttsReply := TtsResponse 500 True\<rparr>)
       (live\<lparr>st_transcript := ''good morning''\<rparr>))) = {}"
proof -
  let ?w = "live\<lparr>st_transcript := ''good morning''\<rparr>"
  let ?env = "(all_well ''Hello'')\<lparr>ttsReply := TtsResponse 500 True\<rparr>"
  have a: "tts_requests Response (effects (snd (handleLiveChatMessage (render_of ?w) ''good morning'' ?env ?w)))
      = [''Hello'']"
    by (simp add: tts_requests_handleLiveChatMessage trim_examples greeting_examples
        filterUrls_examples render_of_def live_fields all_well_def sendMessage_def response_ok_def)
  have b: "playing (snd (handleLiveChatMessage (render_of ?w) ''good morning'' ?env ?w)) = {}"
    by (simp add: handleLiveChatMessage_def turn_begin_def turn_try_def turn_finally_def
        stopContinuousThinking_def trim_examples greeting_examples filterUrls_examples
        speakText_def speakText_try_def emit_def emits_def response_ok_def all_well_def Let_def
        sendMessage_def render_of_def live_fields)
  have c: "apology \<noteq> ''Hello''"
    by (simp add: apology_def)
  show ?thesis
    using a b c by simp
qed

text \<open>
  C5, amended: a turn that is dispatched (a render that is not processing, a non-blank
  message) never throws to its caller and ends with the processing and playing flags
  cleared, with no filler request made and no filler task left. When the backend request
  fails (no URL configured, network error, status outside 2xx, a body that is not JSON
  or has no truthy \<open>output\<close>), or its \<open>output\<close> is not a string, a synthesis request for
  the fixed apology is made in place of one for a reply. When the backend's reply is a
  string, the only request after the acknowledgment phrase is the one for the filtered
  reply, whatever the text-to-speech endpoint answers: a synthesis failure is logged and
  nothing is spoken in its place.
\<close>

theorem turn_completes_on_failure:
  "\<not> isProcessingVoice r \<and> trim m \<noteq> [] \<longrightarrow>
    (let w' = snd (handleLiveChatMessage r m env w);
         acks = (if isSimpleGreeting m then []
                 else [thinkingMessages ! (thinkingChoice env mod length thinkingMessages)])
     in fst (handleLiveChatMessage r m env w) = None
      \<and> \<not> st_isProcessingVoice w' \<and> \<not> st_isPlayingResponse w'
      \<and> fillerTasks w' = fillerTasks w
      \<and> tts_requests Filler (effects w') = tts_requests Filler (effects w)
      \<and> tts_requests Response (effects w') =
          tts_requests Response (effects w) @ acks
          @ (case snd (sendMessage (apiUrl env) (session r) m (backend env)) of
               Inl e \<Rightarrow> [apology]
             | Inr (JStr reply) \<Rightarrow>
                 if trim (filterUrlsFromText reply) = [] then [] else [filterUrlsFromText reply]
             | Inr other \<Rightarrow> [apology]))"
  unfolding Let_def
  by (simp add: handleLiveChatMessage_no_filler handleLiveChatMessage_flags
      tts_requests_handleLiveChatMessage)

theorem turn_completes_on_failure_witness:
  "\<not> isProcessingVoice (render_of (live\<lparr>st_transcript := ''good morning''\<rparr>))
   \<and> trim ''good morning'' \<noteq> []
   \<and> snd (sendMessage (apiUrl ((all_well [])\<lparr>backend := HttpResponse 500 None\<rparr>)) ''session-1''
            ''good morning'' (backend ((all_well [])\<lparr>backend := HttpResponse 500 None\<rparr>)))
       = Inl (HttpError 500)
   \<and> fst (handleLiveChatMessage (render_of (live\<lparr>st_transcript := ''good morning''\<rparr>))
            ''good morning'' ((all_well [])\<lparr>backend := HttpResponse 500 None\<rparr>)
            (live\<lparr>st_transcript := ''good morning''\<rparr>)) = None
   \<and> \<not> st_isProcessingVoice (snd (handleLiveChatMessage (render_of (live\<lparr>st_transcript := ''good morning''\<rparr>))
            ''good morning'' ((all_well [])\<lparr>backend := HttpResponse 500 None\<rparr>)
            (live\<lparr>st_transcript := ''good morning''\<rparr>)))
   \<and> \<not> st_isPlayingResponse (snd (handleLiveChatMessage (render_of (live\<lparr>st_transcript := ''good morning''\<rparr>))
            ''good morning'' ((all_well [])\<lparr>backend := HttpResponse 500 None\<rparr>)
            (live\<lparr>st_transcript := ''good morning''\<rparr>)))
   \<and> tts_requests Response (effects (snd (handleLiveChatMessage (render_of (live\<lparr>st_transcript := ''good morning''\<rparr>))
            ''good morning'' ((all_well [])\<lparr>backend := HttpResponse 500 None\<rparr>)
            (live\<lparr>st_transcript := ''good morning''\<rparr>)))) = [apology]"
  using turn_completes_on_failure
    [of "render_of (live\<lparr>st_transcript := ''good morning''\<rparr>)" "''good morning''"
        "(all_well [])\<lparr>backend := HttpResponse 500 None\<rparr>" "live\<lparr>st_transcript := ''good morning''\<rparr>"]
  by (simp add: Let_def trim_examples greeting_examples render_of_def live_fields all_well_def
      sendMessage_def response_ok_def)


section \<open>Theorems: the acknowledgment phrase and the filler loop of a question\<close>

text \<open>
  C6, at the utterance \<open>What is the weather today\<close> (25 characters, so not a greeting),
  in a turn where every request succeeds: the acknowledgment phrase is requested, then the
  reply; no filler sound is ever requested, no filler task is left with the browser and no
  filler audio element is created. \<^verbatim>\<open>startContinuousThinking\<close> is called (line 246) in
  the render whose \<^verbatim>\<open>isProcessingVoice\<close> the guard of line 202 has just found false,
  and the guard of line 365 reads that same constant.
\<close>

theorem filler_loop_inert_for_question:
  "\<not> isSimpleGreeting ''What is the weather today''
   \<and> tts_requests Response (effects (snd (handleLiveChatMessage
        (render_of (live\<lparr>st_transcript := ''What is the weather today''\<rparr>))
        ''What is the weather today'' (all_well ''It is sunny.'')
        (live\<lparr>st_transcript := ''What is the weather today''\<rparr>))))
      = [thinkingMessages ! 0, ''It is sunny.'']
   \<and> tts_requests Filler (effects (snd (handleLiveChatMessage
        (render_of (live\<lparr>st_transcript := ''What is the weather today''\<rparr>))
        ''What is the weather today'' (all_well ''It is sunny.'')
        (live\<lparr>st_transcript := ''What is the weather today''\<rparr>)))) = []
   \<and> fillerTasks (snd (handleLiveChatMessage
        (render_of (live\<lparr>st_transcript := ''What is the weather today''\<rparr>))
        ''What is the weather today'' (all_well ''It is sunny.'')
        (live\<lparr>st_transcript := ''What is the weather today''\<rparr>))) = []
   \<and> fillerAudios (snd (handleLiveChatMessage
        (render_of (live\<lparr>st_transcript := ''What is the weather today''\<rparr>))
        ''What is the weather today'' (all_well ''It is sunny.'')
        (live\<lparr>st_transcript := ''What is the weather today''\<rparr>))) = {}"
proof -
  let ?w = "live\<lparr>st_transcript := ''What is the weather today''\<rparr>"
  have a: "tts_requests Response (effects (snd (handleLiveChatMessage (render_of ?w)
        ''What is the weather today'' (all_well ''It is sunny.'') ?w)))
      = [thinkingMessages ! 0, ''It is sunny.'']"
    by (simp add: tts_requests_handleLiveChatMessage trim_examples greeting_examples
        filterUrls_examples render_of_def live_fields all_well_def sendMessage_def response_ok_def)
       (simp add: thinkingMessages_def trim_def is_ws_def)
  have b: "tts_requests Filler (effects ?w) = []" "fillerTasks ?w = []" "fillerAudios ?w = {}"
    by (simp_all add: live_fields)
  show ?thesis
    using a b by (simp add: handleLiveChatMessage_no_filler greeting_examples)
qed


section \<open>Theorems: two response audios at once\<close>

text \<open>
  C8, at the utterance \<open>What is the weather today\<close> in a turn where the backend answers
  with status 500 and both synthesis requests succeed: the acknowledgment phrase (element
  0) is still playing when the apology (element 1) starts, so two elements created by
  \<^verbatim>\<open>speakText\<close> play at once. \<^verbatim>\<open>speakText\<close> pauses \<^verbatim>\<open>currentAudio\<close> of its
  render (line 298), which was null when the turn began; element 0 was stored by
  \<^verbatim>\<open>setCurrentAudio\<close> for a later render.
\<close>

theorem overlapping_response_audio:
  "playing (snd (handleLiveChatMessage
        (render_of (live\<lparr>st_transcript := ''What is the weather today''\<rparr>))
        ''What is the weather today'' ((all_well [])\<lparr>backend := HttpResponse 500 None\<rparr>)
        (live\<lparr>st_transcript := ''What is the weather today''\<rparr>))) = {0, 1}
   \<and> responseAudios (snd (handleLiveChatMessage
        (render_of (live\<lparr>st_transcript := ''What is the weather today''\<rparr>))
        ''What is the weather today'' ((all_well [])\<lparr>backend := HttpResponse 500 None\<rparr>)
        (live\<lparr>st_transcript := ''What is the weather today''\<rparr>))) = {0, 1}
   \<and> st_currentAudio (snd (handleLiveChatMessage
        (render_of (live\<lparr>st_transcript := ''What is the weather today''\<rparr>))
        ''What is the weather today'' ((all_well [])\<lparr>backend := HttpResponse 500 None\<rparr>)
        (live\<lparr>st_transcript := ''What is the weather today''\<rparr>))) = Some 1
   \<and> tts_requests Response (effects (snd (handleLiveChatMessage
        (render_of (live\<lparr>st_transcript := ''What is the weather today''\<rparr>))
        ''What is the weather today'' ((all_well [])\<lparr>backend := HttpResponse 500 None\<rparr>)
        (live\<lparr>st_transcript := ''What is the weather today''\<rparr>))))
      = [thinkingMessages ! 0, apology]"
proof -
  let ?w = "live\<lparr>st_transcript := ''What is the weather today''\<rparr>"
  let ?env = "(all_well [])\<lparr>backend := HttpResponse 500 None\<rparr>"
  have t: "trim (thinkingMessages ! 0) \<noteq> []"
    using thinkingMessages_spoken [of 0] by (simp add: thinkingMessages_def)
  have n: "thinkingMessages ! 0 \<noteq> []"
    by (simp add: thinkingMessages_def)
  have p: "trim apology \<noteq> []" "apology \<noteq> []"
    using apology_spoken by auto
  have w: "handleLiveChatMessage (render_of ?w) ''What is the weather today'' ?env ?w
      = (None, ?w\<lparr> st_currentAudio := Some 1, playing := {0, 1}, responseAudios := {0, 1},
                    objectUrls := {0, 1}, audioCount := 2,
                    effects := [TTSRequest Response (thinkingMessages ! 0),
                       BackendRequest \<lparr>sessionId = ''session-1'', action = ''sendMessage'',
                         chatInput = ''What is the weather today''\<rparr>,
                       ConsoleError ''Error sending message:'', ConsoleError ''Error in live chat:'',
                       TTSRequest Response apology] \<rparr>)"
    using t n p
    by (simp add: handleLiveChatMessage_def turn_begin_def turn_try_def turn_catch_def
        turn_finally_def stopContinuousThinking_def startContinuousThinking_def
        playRandomThinkingSound_def trim_examples greeting_examples
        speakText_def speakText_try_def emit_def emits_def response_ok_def all_well_def Let_def
        sendMessage_def render_of_def live_fields insert_commute)
  show ?thesis
    unfolding w by simp
qed


section \<open>Lemmas: the filler loop under every order of events\<close>

text \<open>What the filler loop has done so far: its requests, its audio elements, its tasks.\<close>

lemma filler_step_idle: "fillerTasks w = [] \<Longrightarrow> filler_step e w = w"
  by (cases e) (simp_all add: task_at_def)

lemma debounceTimeout_no_filler:
  "fillerTasks (snd (debounceTimeout r env w)) = fillerTasks w"
  "tts_requests Filler (effects (snd (debounceTimeout r env w))) = tts_requests Filler (effects w)"
  "fillerAudios (snd (debounceTimeout r env w)) = fillerAudios w"
proof -
  obtain t v where h: "handleLiveChatMessage r (trim (transcript r)) env w = (t, v)"
    by (cases "handleLiveChatMessage r (trim (transcript r)) env w")
  have v: "fillerTasks v = fillerTasks w"
    "tts_requests Filler (effects v) = tts_requests Filler (effects w)"
    "fillerAudios v = fillerAudios w"
    using handleLiveChatMessage_no_filler [of r "trim (transcript r)" env w] by (simp_all add: h)
  show "fillerTasks (snd (debounceTimeout r env w)) = fillerTasks w"
    using v by (simp add: debounceTimeout_def Let_def h resetTranscript_def split: option.splits)
  show "tts_requests Filler (effects (snd (debounceTimeout r env w))) = tts_requests Filler (effects w)"
    using v by (simp add: debounceTimeout_def Let_def h resetTranscript_def split: option.splits)
  show "fillerAudios (snd (debounceTimeout r env w)) = fillerAudios w"
    using v by (simp add: debounceTimeout_def Let_def h resetTranscript_def split: option.splits)
qed

lemma voiceInterruptionEffect_no_filler:
  "fillerTasks (voiceInterruptionEffect r w) = fillerTasks w"
  "effects (voiceInterruptionEffect r w) = effects w"
  "fillerAudios (voiceInterruptionEffect r w) = fillerAudios w"
  by (simp_all add: voiceInterruptionEffect_def stopContinuousThinking_def pause_def
      resetTranscript_def Let_def split: option.splits)

lemma handleLiveChatToggle_no_filler:
  "fillerTasks (handleLiveChatToggle r w) = fillerTasks w"
  "tts_requests Filler (effects (handleLiveChatToggle r w)) = tts_requests Filler (effects w)"
  "fillerAudios (handleLiveChatToggle r w) = fillerAudios w"
  by (simp_all add: handleLiveChatToggle_def stopContinuousThinking_def pause_def
      resetTranscript_def stopListening_def startListening_def recognition_start_def emit_def
      Let_def split: option.splits)

lemma sys_step_no_filler:
  assumes "fillerTasks w = []"
  shows "fillerTasks (sys_step e w) = []"
    and "tts_requests Filler (effects (sys_step e w)) = tts_requests Filler (effects w)"
    and "fillerAudios (sys_step e w) = fillerAudios w"
  using assms
  by (cases e; simp add: handleLiveChatMessage_no_filler debounceTimeout_no_filler
      filler_step_idle voiceInterruptionEffect_no_filler handleLiveChatToggle_no_filler
      responseAudioEnded_def responseAudioError_def onRecognitionStart_def
      onRecognitionError_def emit_def)+

lemma sys_run_no_filler:
  "fillerTasks w = [] \<Longrightarrow>
     fillerTasks (sys_run evs w) = []
     \<and> tts_requests Filler (effects (sys_run evs w)) = tts_requests Filler (effects w)
     \<and> fillerAudios (sys_run evs w) = fillerAudios w"
proof (induction evs arbitrary: w)
  case Nil
  then show ?case by (simp add: sys_run_def)
next
  case (Cons e evs)
  have "sys_run (e # evs) w = sys_run evs (sys_step e w)"
    by (simp add: sys_run_def)
  then show ?case
    using Cons.IH [of "sys_step e w"] sys_step_no_filler [OF Cons.prems, of e] by simp
qed


section \<open>Theorems: the filler loop is bounded by the turn\<close>

text \<open>
  C1: from a state with no filler task pending (such as the mounted component), and
  under every sequence of events (turns started from any render, debounce callbacks,
  completion, error and timer callbacks of the filler loop in any order, the
  voice-interruption effect, the mode switch, the handlers of the response audio), no
  filler sound is requested, no filler audio element is created, and no task of the loop
  (request, audio handler or timer) is left with the browser. So no filler playback is
  scheduled or started after a turn has left its thinking phase, or at any other time;
  and \<^verbatim>\<open>stopContinuousThinking\<close> stops the element its render holds in
  \<^verbatim>\<open>thinkingAudio\<close> and clears the reference.
\<close>

theorem filler_loop_never_plays:
  "fillerTasks w = [] \<longrightarrow>
     fillerTasks (sys_run evs w) = []
     \<and> tts_requests Filler (effects (sys_run evs w)) = tts_requests Filler (effects w)
     \<and> fillerAudios (sys_run evs w) = fillerAudios w
     \<and> (case thinkingAudio r of
          Some a \<Rightarrow> a \<notin> playing (stopContinuousThinking r v)
                    \<and> st_thinkingAudio (stopContinuousThinking r v) = None
        | None \<Rightarrow> stopContinuousThinking r v = v)"
  using sys_run_no_filler [of w evs]
  by (simp add: stopContinuousThinking_def pause_def split: option.splits)

theorem filler_loop_never_plays_witness:
  "fillerTasks mounted = []
   \<and> fillerTasks (sys_run
        [ToggleLiveChat, RecognitionStarted, Transcript ''What is the weather today'',
         Debounced (render_of (live\<lparr>st_transcript := ''What is the weather today''\<rparr>))
           (all_well ''It is sunny.''),
         FillerCallback (FetchSettled 0 (TtsResponse 200 True)), FillerCallback (AudioEnded 0 700),
         FillerCallback (TimerFired 0 3), ResponseEnded 1, Interruption, ToggleLiveChat]
        mounted) = []
   \<and> tts_requests Filler (effects (sys_run
        [ToggleLiveChat, RecognitionStarted, Transcript ''What is the weather today'',
         Debounced (render_of (live\<lparr>st_transcript := ''What is the weather today''\<rparr>))
           (all_well ''It is sunny.''),
         FillerCallback (FetchSettled 0 (TtsResponse 200 True)), FillerCallback (AudioEnded 0 700),
         FillerCallback (TimerFired 0 3), ResponseEnded 1, Interruption, ToggleLiveChat]
        mounted)) = []
   \<and> fillerAudios (sys_run
        [ToggleLiveChat, RecognitionStarted, Transcript ''What is the weather today'',
         Debounced (render_of (live\<lparr>st_transcript := ''What is the weather today''\<rparr>))
           (all_well ''It is sunny.''),
         FillerCallback (FetchSettled 0 (TtsResponse 200 True)), FillerCallback (AudioEnded 0 700),
         FillerCallback (TimerFired 0 3), ResponseEnded 1, Interruption, ToggleLiveChat]
        mounted) = {}"
  using filler_loop_never_plays [of mounted
        "[ToggleLiveChat, RecognitionStarted, Transcript ''What is the weather today'',
         Debounced (render_of (live\<lparr>st_transcript := ''What is the weather today''\<rparr>))
           (all_well ''It is sunny.''),
         FillerCallback (FetchSettled 0 (TtsResponse 200 True)), FillerCallback (AudioEnded 0 700),
         FillerCallback (TimerFired 0 3), ResponseEnded 1, Interruption, ToggleLiveChat]"
        "render_of mounted" mounted]
  by (simp add: mounted_def)


section \<open>Lemmas: the debounce timer\<close>

lemma run_snoc: "run (evs @ [e]) s = step e (run evs s)"
  by (simp add: run_def)

lemma run_Nil [simp]: "run [] s = s"
  by (simp add: run_def)

lemma updates_append: "updates (es @ fs) = updates es @ updates fs"
  by (induction es rule: updates.induct) simp_all

lemma spaced_snoc:
  "spaced (us @ [v]) = (spaced us \<and> (us \<noteq> [] \<longrightarrow> fst v < fst (last us) + 1500))"
  by (induction us rule: spaced.induct) auto

lemma changing_snoc:
  "changing x (us @ [v]) = (changing x us \<and> snd v \<noteq> (if us = [] then x else snd (last us)))"
  by (induction us arbitrary: x) auto

text \<open>Without an update nothing happens: no timer is ever pending.\<close>

lemma run_no_updates:
  "timers s = [] \<Longrightarrow> updates evs = [] \<Longrightarrow> run evs s = s"
proof (induction evs rule: rev_induct)
  case Nil
  then show ?case by simp
next
  case (snoc e evs)
  then have u: "updates evs = []" and e: "updates [e] = []"
    by (simp_all add: updates_append)
  with snoc have r: "run evs s = s" by simp
  from e obtain t env where "e = TimerFires t env"
    by (cases e) simp_all
  then show ?case
    using snoc.prems(1) by (simp add: run_snoc r)
qed

text \<open>The effect after an update, in a state that is not in a turn.\<close>

lemma debounceEffect_arms:
  assumes "st_isLiveChatMode (component s)" "\<not> st_isProcessingVoice (component s)"
    "\<not> st_isPlayingResponse (component s)"
    and "case cleanup s of None \<Rightarrow> timers s = [] | Some i \<Rightarrow> timers s = [] \<or> (\<exists>d r. timers s = [(i, d, r)])"
  shows "waiting s0 t (st_transcript (component s)) (debounceEffect t s)
     = (backend_requests (effects (component s)) = backend_requests (effects (component s0))
        \<and> st_session (component s) = st_session (component s0))"
proof -
  have c: "timers (case cleanup s of Some i \<Rightarrow> clearTimeout i s | None \<Rightarrow> s) = []"
    using assms(4) by (auto simp add: clearTimeout_def split: option.splits)
  have k: "component (case cleanup s of Some i \<Rightarrow> clearTimeout i s | None \<Rightarrow> s) = component s"
    "nextTimer (case cleanup s of Some i \<Rightarrow> clearTimeout i s | None \<Rightarrow> s) = nextTimer s"
    by (simp_all add: clearTimeout_def split: option.splits)
  show ?thesis
    using assms(1-3) c k
    by (auto simp add: waiting_def debounceEffect_def Let_def render_of_def)
qed

lemma clearTimeout_fields [simp]:
  "component (clearTimeout i s) = component s"
  "cleanup (clearTimeout i s) = cleanup s"
  "nextTimer (clearTimeout i s) = nextTimer s"
  "timers s = [] \<Longrightarrow> timers (clearTimeout i s) = []"
  "timers s = [(i, d, r)] \<Longrightarrow> timers (clearTimeout i s) = []"
  by (simp_all add: clearTimeout_def)

lemma step_update_waiting:
  assumes "waiting s0 tn xn s" "x \<noteq> xn"
  shows "waiting s0 t x (step (TranscriptUpdate t x) s)"
proof -
  let ?s = "s\<lparr>component := (component s)\<lparr>st_transcript := x\<rparr>\<rparr>"
  have c: "case cleanup ?s of None \<Rightarrow> timers ?s = []
           | Some i \<Rightarrow> timers ?s = [] \<or> (\<exists>d r. timers ?s = [(i, d, r)])"
    using assms(1) by (auto simp add: waiting_def split: if_splits)
  have "waiting s0 t (st_transcript (component ?s)) (debounceEffect t ?s)"
    using assms(1) by (subst debounceEffect_arms [OF _ _ _ c]) (simp_all add: waiting_def)
  moreover have "st_transcript (component ?s) = x"
    by simp
  moreover have "st_transcript (component s) = xn"
    using assms(1) by (simp add: waiting_def)
  then have "step (TranscriptUpdate t x) s = debounceEffect t ?s"
    using assms(2) by simp
  ultimately show ?thesis
    by simp
qed

lemma step_update_calm:
  assumes "calm s0" "x \<noteq> st_transcript (component s0)"
  shows "waiting s0 t x (step (TranscriptUpdate t x) s0)"
proof -
  let ?s = "s0\<lparr>component := (component s0)\<lparr>st_transcript := x\<rparr>\<rparr>"
  have c: "case cleanup ?s of None \<Rightarrow> timers ?s = []
           | Some i \<Rightarrow> timers ?s = [] \<or> (\<exists>d r. timers ?s = [(i, d, r)])"
    using assms(1) by (simp add: calm_def)
  have "waiting s0 t (st_transcript (component ?s)) (debounceEffect t ?s)"
    using assms(1) by (subst debounceEffect_arms [OF _ _ _ c]) (simp_all add: calm_def)
  moreover have "st_transcript (component ?s) = x"
    by simp
  moreover have "step (TranscriptUpdate t x) s0 = debounceEffect t ?s"
    using assms(2) by simp
  ultimately show ?thesis
    by simp
qed

text \<open>What the timer's callback sends and leaves.\<close>

lemma debounceTimeout_sends:
  "backend_requests (effects (snd (debounceTimeout r env w))) =
     backend_requests (effects w) @
       (if length (trim (transcript r)) \<le> 2 \<or> isProcessingVoice r
           \<or> apiUrl env = None \<or> apiUrl env = Some [] then []
        else [\<lparr>sessionId = session r, action = ''sendMessage'', chatInput = trim (transcript r)\<rparr>])"
proof (cases "2 < length (trim (transcript r))")
  case False
  then show ?thesis by (simp add: debounceTimeout_def Let_def)
next
  case True
  then have n: "trim (transcript r) \<noteq> []" by auto
  obtain v where h: "handleLiveChatMessage r (trim (transcript r)) env w = (None, v)"
    using handleLiveChatMessage_never_throws [of r "trim (transcript r)" env w]
    by (cases "handleLiveChatMessage r (trim (transcript r)) env w") simp
  have "backend_requests (effects v) = backend_requests (effects w) @
       (if isProcessingVoice r \<or> apiUrl env = None \<or> apiUrl env = Some [] then []
        else [\<lparr>sessionId = session r, action = ''sendMessage'', chatInput = trim (transcript r)\<rparr>])"
    using backend_requests_handleLiveChatMessage [of r "trim (transcript r)" env w] n
    by (simp add: h)
  then show ?thesis
    using True n by (simp add: debounceTimeout_def Let_def h resetTranscript_def)
qed

lemma debounceTimeout_transcript:
  "st_transcript (snd (debounceTimeout r env w)) =
     (if 2 < length (trim (transcript r)) then [] else st_transcript w)"
proof -
  obtain v where h: "handleLiveChatMessage r (trim (transcript r)) env w = (None, v)"
    using handleLiveChatMessage_never_throws [of r "trim (transcript r)" env w]
    by (cases "handleLiveChatMessage r (trim (transcript r)) env w") simp
  show ?thesis
    by (auto simp add: debounceTimeout_def Let_def h resetTranscript_def)
qed

lemma debounceEffect_silent:
  assumes "st_transcript (component s) = []" "timers s = []"
  shows "timers (debounceEffect t s) = []"
    and "effects (component (debounceEffect t s)) = effects (component s)"
  using assms
  by (simp_all add: debounceEffect_def Let_def render_of_def clearTimeout_def split: option.splits)

lemma step_fire_waiting:
  assumes "waiting s0 tn xn s"
  shows "xn = [] \<or> T < tn + 1500 \<Longrightarrow> step (TimerFires T env) s = s"
    and "xn \<noteq> [] \<Longrightarrow> tn + 1500 \<le> T \<Longrightarrow> settled s0 xn (step (TimerFires T env) s)"
    and "tn + 1500 \<le> T \<Longrightarrow> 2 < length (trim xn) \<Longrightarrow> apiUrl env = Some u \<Longrightarrow> u \<noteq> [] \<Longrightarrow>
           backend_requests (effects (component (step (TimerFires T env) s)))
             = backend_requests (effects (component s0)) @ [request_for s0 xn]"
proof -
  show "xn = [] \<or> T < tn + 1500 \<Longrightarrow> step (TimerFires T env) s = s"
    using assms by (auto simp add: waiting_def split: if_splits)
  let ?r = "render_of (component s)"
  let ?i = "nextTimer s - 1"
  let ?s1 = "clearTimeout ?i s"
  let ?w = "snd (debounceTimeout ?r env (component s))"
  let ?s2 = "?s1\<lparr>component := ?w\<rparr>"
  have r: "transcript ?r = xn" "session ?r = st_session (component s0)" "\<not> isProcessingVoice ?r"
    using assms by (simp_all add: waiting_def render_of_def)
  have sent: "backend_requests (effects ?w) =
     backend_requests (effects (component s0)) @
       (if length (trim xn) \<le> 2 \<or> apiUrl env = None \<or> apiUrl env = Some [] then []
        else [request_for s0 xn])"
    using assms r by (simp add: debounceTimeout_sends waiting_def request_for_def)
  {
    assume x: "xn \<noteq> []" and T: "tn + 1500 \<le> T"
    have tm: "timers s = [(?i, tn + 1500, ?r)]" and cl: "cleanup s = Some ?i"
      using assms x by (simp_all add: waiting_def)
    have s1: "timers ?s1 = []"
      using tm by simp
    have st: "step (TimerFires T env) s =
        (if deps ?w \<noteq> deps (component s) then debounceEffect T ?s2 else ?s2)"
      using T by (simp add: tm Let_def)
    have tr: "deps ?w \<noteq> deps (component s) \<Longrightarrow> st_transcript ?w = []"
    proof (rule ccontr)
      assume d: "deps ?w \<noteq> deps (component s)" and "st_transcript ?w \<noteq> []"
      then have "\<not> 2 < length (trim xn)"
        using r by (auto simp add: debounceTimeout_transcript split: if_splits)
      then have "?w = component s"
        using r by (simp add: debounceTimeout_def Let_def)
      with d show False by simp
    qed
    have t2: "timers (step (TimerFires T env) s) = []"
      unfolding st using tr s1 by (simp add: debounceEffect_silent)
    have e2: "effects (component (step (TimerFires T env) s)) = effects ?w"
      unfolding st using tr s1 by (simp add: debounceEffect_silent)
    note t2 e2
  }
  note fired = this
  show "xn \<noteq> [] \<Longrightarrow> tn + 1500 \<le> T \<Longrightarrow> settled s0 xn (step (TimerFires T env) s)"
    using fired sent by (simp add: settled_def)
  show "tn + 1500 \<le> T \<Longrightarrow> 2 < length (trim xn) \<Longrightarrow> apiUrl env = Some u \<Longrightarrow> u \<noteq> [] \<Longrightarrow>
           backend_requests (effects (component (step (TimerFires T env) s)))
             = backend_requests (effects (component s0)) @ [request_for s0 xn]"
  proof -
    assume a: "tn + 1500 \<le> T" "2 < length (trim xn)" "apiUrl env = Some u" "u \<noteq> []"
    then have "xn \<noteq> []" by auto
    then show ?thesis
      using fired(2) a sent by simp
  qed
qed

lemma step_fire_settled:
  "settled s0 xn s \<Longrightarrow> step (TimerFires T env) s = s"
  by (simp add: settled_def)

lemma debounce_phases:
  assumes "calm s0"
  shows "sorted (map event_time evs) \<Longrightarrow> spaced (updates evs) \<Longrightarrow>
     changing (st_transcript (component s0)) (updates evs) \<Longrightarrow> updates evs \<noteq> [] \<Longrightarrow>
     waiting s0 (fst (last (updates evs))) (snd (last (updates evs))) (run evs s0)
     \<or> (settled s0 (snd (last (updates evs))) (run evs s0)
        \<and> (\<exists>e \<in> set evs. fst (last (updates evs)) + 1500 \<le> event_time e))"
proof (induction evs rule: rev_induct)
  case Nil
  then show ?case by simp
next
  case (snoc e evs)
  note step.simps [simp del]
  have srt: "sorted (map event_time evs)" and le: "\<forall>e' \<in> set evs. event_time e' \<le> event_time e"
    using snoc.prems(1) by (auto simp add: sorted_append)
  have sp: "spaced (updates evs)" and ch: "changing (st_transcript (component s0)) (updates evs)"
    using snoc.prems(2,3) by (cases e; simp add: updates_append spaced_snoc changing_snoc)+
  show ?case
  proof (cases e)
    case (TranscriptUpdate t x)
    have u: "updates (evs @ [TranscriptUpdate t x]) = updates evs @ [(t, x)]"
      by (simp add: updates_append)
    note pr = snoc.prems [unfolded TranscriptUpdate]
    show ?thesis
    proof (cases "updates evs = []")
      case True
      have "timers s0 = []" using assms by (simp add: calm_def)
      then have r: "run evs s0 = s0" using True by (rule run_no_updates)
      have "x \<noteq> st_transcript (component s0)"
        using pr(3) by (simp add: u True)
      then have "waiting s0 t x (step (TranscriptUpdate t x) s0)"
        using assms by (rule step_update_calm [rotated])
      then show ?thesis
        unfolding TranscriptUpdate by (simp add: u run_snoc r)
    next
      case False
      let ?tn = "fst (last (updates evs))" and ?xn = "snd (last (updates evs))"
      have x: "x \<noteq> ?xn" and g: "t < ?tn + 1500"
        using pr(2,3) False by (simp_all add: u spaced_snoc changing_snoc)
      from snoc.IH [OF srt sp ch False] show ?thesis
      proof
        assume "waiting s0 ?tn ?xn (run evs s0)"
        then have "waiting s0 t x (step (TranscriptUpdate t x) (run evs s0))"
          using x by (rule step_update_waiting)
        then show ?thesis
          unfolding TranscriptUpdate by (simp add: u run_snoc)
      next
        assume "settled s0 ?xn (run evs s0) \<and> (\<exists>e \<in> set evs. ?tn + 1500 \<le> event_time e)"
        then obtain e' where "e' \<in> set evs" "?tn + 1500 \<le> event_time e'"
          by blast
        then have "?tn + 1500 \<le> t"
          using le TranscriptUpdate by fastforce
        then show ?thesis using g by simp
      qed
    qed
  next
    case (TimerFires T env)
    have u: "updates (evs @ [TimerFires T env]) = updates evs"
      by (simp add: updates_append)
    then have ne: "updates evs \<noteq> []"
      using snoc.prems(4) [unfolded TimerFires] by simp
    let ?tn = "fst (last (updates evs))" and ?xn = "snd (last (updates evs))"
    from snoc.IH [OF srt sp ch ne] show ?thesis
    proof
      assume w: "waiting s0 ?tn ?xn (run evs s0)"
      show ?thesis
      proof (cases "?xn = [] \<or> T < ?tn + 1500")
        case True
        then have "step (TimerFires T env) (run evs s0) = run evs s0"
          by (rule step_fire_waiting(1) [OF w])
        then show ?thesis
          unfolding TimerFires using w by (simp add: u run_snoc)
      next
        case False
        then have "settled s0 ?xn (step (TimerFires T env) (run evs s0))"
          using step_fire_waiting(2) [OF w] by simp
        moreover have "?tn + 1500 \<le> event_time e"
          using False TimerFires by simp
        ultimately show ?thesis
          unfolding TimerFires by (auto simp add: u run_snoc)
      qed
    next
      assume s: "settled s0 ?xn (run evs s0) \<and> (\<exists>e \<in> set evs. ?tn + 1500 \<le> event_time e)"
      then have "step (TimerFires T env) (run evs s0) = run evs s0"
        using step_fire_settled by blast
      then show ?thesis
        unfolding TimerFires using s by (auto simp add: u run_snoc)
    qed
  qed
qed


section \<open>Theorems: the debounce restarts on every update\<close>




section \<open>Lemmas: the URL filter\<close>

text \<open>The matcher on the shapes of items the two regular expressions are made of.\<close>

lemma find_rev_upt_first:
  assumes "k \<le> mx" "Q mx"
  shows "List.find Q (rev [k ..< Suc mx]) = Some mx"
  using assms by simp

lemma find_rev_upt_only_last:
  assumes "\<And>j. k \<le> j \<Longrightarrow> j < mx \<Longrightarrow> \<not> Q j"
  shows "List.find Q (rev [k ..< Suc mx]) = (if k \<le> mx \<and> Q mx then Some mx else None)"
proof -
  have "List.find Q (rev [k ..< mx]) = None"
    using assms by (auto simp add: find_None_iff)
  then show ?thesis by simp
qed

lemma match_items_Rep_last:
  "match_items [Rep P k] s =
     (if k \<le> length (takeWhile P s) then Some (length (takeWhile P s)) else None)"
  by simp

text \<open>A repetition before items that match everywhere keeps its longest run.\<close>

lemma match_items_Rep_total:
  assumes "\<And>u. match_items rest u \<noteq> None"
  shows "match_items (Rep P k # rest) s =
     (if k \<le> length (takeWhile P s)
      then map_option ((+) (length (takeWhile P s))) (match_items rest (drop (length (takeWhile P s)) s))
      else None)"
proof (cases "k \<le> length (takeWhile P s)")
  case True
  then have "List.find (\<lambda>j. match_items rest (drop j s) \<noteq> None) (rev [k ..< Suc (length (takeWhile P s))])
      = Some (length (takeWhile P s))"
    using assms by (intro find_rev_upt_first) auto
  then show ?thesis using True by simp
next
  case False
  then show ?thesis by simp
qed

text \<open>
  A repetition before a literal that is not in its class keeps its longest run too: after
  giving a character back, the literal would have to match a character of the class.
\<close>

lemma match_items_Rep_Lit:
  assumes "\<not> P c"
  shows "match_items (Rep P k # Lit c # rest) s =
     (if k \<le> length (takeWhile P s)
      then map_option ((+) (length (takeWhile P s)))
             (match_items (Lit c # rest) (drop (length (takeWhile P s)) s))
      else None)"
proof -
  let ?mx = "length (takeWhile P s)"
  let ?Q = "\<lambda>j. match_items (Lit c # rest) (drop j s) \<noteq> None"
  have inner: "\<not> match_items (Lit c # rest) (drop j s) \<noteq> None" if "k \<le> j" "j < ?mx" for j
  proof -
    have "j < length s" using that(2) by (meson length_takeWhile_le less_le_trans)
    then have d: "drop j s = s ! j # drop (Suc j) s" by (simp add: Cons_nth_drop_Suc)
    have "P (s ! j)"
      using that(2) by (metis nth_mem set_takeWhileD takeWhile_nth)
    then have "s ! j \<noteq> c" using assms by auto
    then show ?thesis by (simp add: d)
  qed
  have "List.find ?Q (rev [k ..< Suc ?mx]) = (if k \<le> ?mx \<and> ?Q ?mx then Some ?mx else None)"
    by (rule find_rev_upt_only_last) (rule inner)
  then show ?thesis
    by (cases "match_items (Lit c # rest) (drop ?mx s)") simp_all
qed

lemma match_items_Lits:
  "match_items (map Lit p @ rest) s =
     (if prefix p s then map_option ((+) (length p)) (match_items rest (drop (length p) s)) else None)"
proof (induction p arbitrary: s)
  case Nil
  then show ?case by (cases "match_items rest s") simp_all
next
  case (Cons a p)
  show ?case
  proof (cases s)
    case Nil
    then show ?thesis by simp
  next
    case (Cons x xs)
    then show ?thesis
      by (cases "match_items rest (drop (length p) xs)") (simp_all add: Cons.IH)
  qed
qed

lemma is_ws_cases:
  "is_ws c = (c = CHR 0x09 \<or> c = CHR 0x0A \<or> c = CHR 0x0B \<or> c = CHR 0x0C \<or> c = CHR 0x0D
     \<or> c = CHR '' '' \<or> c = CHR 0xA0)"
  by (simp add: is_ws_def)

lemma alpha_non_ws: "is_alpha c \<Longrightarrow> non_ws c"
  unfolding is_alpha_def non_ws_def is_ws_cases by (elim disjE | simp)+

lemma digit_non_ws: "c \<in> set ''0123456789-'' \<Longrightarrow> non_ws c"
  unfolding non_ws_def is_ws_cases by (elim disjE | simp)+

lemma label_non_ws:
  assumes "is_label c"
  shows "non_ws c"
proof (cases "is_alpha c")
  case True
  then show ?thesis by (rule alpha_non_ws)
next
  case False
  with assms have "c \<in> set ''0123456789-''"
    unfolding is_label_def by blast
  then show ?thesis by (rule digit_non_ws)
qed

lemma class_literals:
  "\<not> is_label CHR ''.''" "\<not> is_alpha CHR ''/''" "non_ws CHR ''.''"
  by (simp_all add: is_alpha_def is_label_def non_ws_def is_ws_def)

lemma all_non_ws_literals:
  "list_all non_ws ''https://''" "list_all non_ws ''http://''" "list_all non_ws ''www.''"
  by (simp_all add: non_ws_def is_ws_def)

text \<open>Tokens.\<close>

lemma tok_Nil [simp]: "tok [] = []"
  by (simp add: tok_def)

lemma tok_Cons: "tok (c # s) = (if non_ws c then c # tok s else [])"
  by (simp add: tok_def)

lemma tok_idem [simp]: "tok (tok s) = tok s"
  by (simp add: tok_def)

lemma tok_append_non_ws: "list_all non_ws p \<Longrightarrow> tok (p @ s) = p @ tok s"
  by (induction p) (simp_all add: tok_Cons)

lemma prefix_tok: "list_all non_ws p \<Longrightarrow> prefix p (tok s) = prefix p s"
proof (induction p arbitrary: s)
  case Nil
  then show ?case by simp
next
  case (Cons a p)
  show ?case
  proof (cases s)
    case Nil
    then show ?thesis by simp
  next
    case (Cons x xs)
    then show ?thesis
      using Cons.prems Cons.IH [of xs] by (auto simp add: tok_Cons)
  qed
qed

lemma takeWhile_tok:
  assumes "\<And>c. P c \<Longrightarrow> non_ws c"
  shows "takeWhile P (tok s) = takeWhile P s"
  using assms by (induction s) (auto simp add: tok_Cons)

lemma drop_tok: "k \<le> length (tok s) \<Longrightarrow> drop k (tok s) = tok (drop k s)"
proof (induction s arbitrary: k)
  case Nil
  then show ?case by simp
next
  case (Cons c s)
  show ?case
  proof (cases k)
    case 0
    then show ?thesis by simp
  next
    case (Suc j)
    then show ?thesis
      using Cons.prems Cons.IH [of j] by (auto simp add: tok_Cons split: if_splits)
  qed
qed

lemma length_tok_le: "length (tok s) \<le> length s"
  by (simp add: tok_def length_takeWhile_le)

text \<open>The alternatives of the URL regex, one by one.\<close>

lemma match_non_ws_run:
  "match_items [Rep non_ws k] u = (if k \<le> length (tok u) then Some (length (tok u)) else None)"
  by (simp add: tok_def)

lemma match_non_ws_run_total: "match_items [Rep non_ws 0] u \<noteq> None"
  by (simp add: match_non_ws_run del: match_items.simps)

lemma prefix_append_drop: "prefix (p @ q) s = (prefix p s \<and> prefix q (drop (length p) s))"
proof (induction p arbitrary: s)
  case Nil
  then show ?case by simp
next
  case (Cons a p)
  then show ?case by (cases s) auto
qed

lemma match_items_Opt_Lits:
  assumes "p \<noteq> []" "hd p \<noteq> c"
  shows "match_items (Opt c # map Lit p @ rest) u =
     (if prefix (c # p) u
      then map_option ((+) (Suc (length p))) (match_items rest (drop (Suc (length p)) u))
      else if prefix p u
      then map_option ((+) (length p)) (match_items rest (drop (length p) u))
      else None)"
proof (cases u)
  case Nil
  then show ?thesis using assms(1) by (simp add: match_items_Lits)
next
  case (Cons x xs)
  show ?thesis
  proof (cases "x = c")
    case True
    have np: "\<not> prefix p (c # xs)"
      using assms by (cases p) auto
    show ?thesis
      by (cases "match_items rest (drop (length p) xs)")
         (simp_all add: Cons True match_items_Lits np)
  next
    case False
    then show ?thesis by (simp add: Cons match_items_Lits)
  qed
qed

lemma alt_http:
  "match_items (map Lit ''http'' @ [Opt CHR ''s''] @ map Lit ''://'' @ [Rep non_ws 1]) s =
     (if prefix ''https://'' s \<and> 1 \<le> length (tok (drop 8 s)) then Some (8 + length (tok (drop 8 s)))
      else if prefix ''http://'' s \<and> 1 \<le> length (tok (drop 7 s)) then Some (7 + length (tok (drop 7 s)))
      else None)"
proof -
  have o: "match_items (Opt CHR ''s'' # map Lit ''://'' @ [Rep non_ws 1]) u =
     (if prefix ''s://'' u
      then map_option ((+) 4) (match_items [Rep non_ws 1] (drop 4 u))
      else if prefix ''://'' u
      then map_option ((+) 3) (match_items [Rep non_ws 1] (drop 3 u))
      else None)" for u
    using match_items_Opt_Lits [of "''://''" "CHR ''s''" "[Rep non_ws 1]" u]
    by (simp del: match_items.simps add: eval_nat_numeral)
  have a: "prefix ''https://'' s = (prefix ''http'' s \<and> prefix ''s://'' (drop 4 s))"
    using prefix_append_drop [of "''http''" "''s://''" s] by (simp add: eval_nat_numeral)
  have b: "prefix ''http://'' s = (prefix ''http'' s \<and> prefix ''://'' (drop 4 s))"
    using prefix_append_drop [of "''http''" "''://''" s] by (simp add: eval_nat_numeral)
  have c: "\<not> (prefix ''s://'' u \<and> prefix ''://'' u)" for u
    by (cases u) auto
  have "match_items (map Lit ''http'' @ (Opt CHR ''s'' # map Lit ''://'' @ [Rep non_ws 1])) s =
     (if prefix ''http'' s
      then map_option ((+) 4) (match_items (Opt CHR ''s'' # map Lit ''://'' @ [Rep non_ws 1]) (drop 4 s))
      else None)"
    using match_items_Lits [of "''http''" "Opt CHR ''s'' # map Lit ''://'' @ [Rep non_ws 1]" s]
    by (simp del: match_items.simps add: eval_nat_numeral)
  then have "match_items (map Lit ''http'' @ [Opt CHR ''s''] @ map Lit ''://'' @ [Rep non_ws 1]) s =
     (if prefix ''http'' s
      then map_option ((+) 4)
        (if prefix ''s://'' (drop 4 s)
         then map_option ((+) 4) (if 1 \<le> length (tok (drop 4 (drop 4 s)))
                then Some (length (tok (drop 4 (drop 4 s)))) else None)
         else if prefix ''://'' (drop 4 s)
         then map_option ((+) 3) (if 1 \<le> length (tok (drop 3 (drop 4 s)))
                then Some (length (tok (drop 3 (drop 4 s)))) else None)
         else None)
      else None)"
    unfolding o match_non_ws_run by (simp del: match_items.simps)
  then show ?thesis
    unfolding a b using c [of "drop 4 s"] by (auto simp del: match_items.simps)
qed

lemma alt_www:
  "match_items (map Lit ''www.'' @ [Rep non_ws 1]) s =
     (if prefix ''www.'' s \<and> 1 \<le> length (tok (drop 4 s)) then Some (4 + length (tok (drop 4 s)))
      else None)"
  using match_items_Lits [of "''www.''" "[Rep non_ws 1]" s]
  unfolding match_non_ws_run by (auto simp del: match_items.simps simp add: eval_nat_numeral)

lemma match_items_Lit:
  "match_items (Lit c # rest) u =
     (if prefix [c] u then map_option Suc (match_items rest (drop 1 u)) else None)"
  by (cases u) simp_all

lemma tok_takeWhile:
  assumes "\<And>c. P c \<Longrightarrow> non_ws c"
  shows "tok s = takeWhile P s @ tok (drop (length (takeWhile P s)) s)"
  using assms by (induction s) (auto simp add: tok_Cons)

lemma length_tok_label:
  "length (tok s) = length (takeWhile is_label s) + length (tok (drop (length (takeWhile is_label s)) s))"
  using tok_takeWhile [of is_label s] label_non_ws by (metis length_append)

lemma length_tok_alpha:
  "length (tok s) = length (takeWhile is_alpha s) + length (tok (drop (length (takeWhile is_alpha s)) s))"
  using tok_takeWhile [of is_alpha s] alpha_non_ws by (metis length_append)

lemma length_tok_prefix:
  assumes "prefix p s" "list_all non_ws p"
  shows "length (tok s) = length p + length (tok (drop (length p) s))"
proof -
  obtain r where s: "s = p @ r" using assms(1) by (auto simp add: prefix_def)
  show ?thesis
    using tok_append_non_ws [OF assms(2), of r] by (simp add: s)
qed

text \<open>The condition of the two domain alternatives, and the length of their match.\<close>

lemma alt_domain:
  "match_items [Rep is_label 1, Lit CHR ''.'', Rep is_alpha 2, Rep non_ws 0] s =
     (if 1 \<le> length (takeWhile is_label s)
         \<and> prefix ''.'' (drop (length (takeWhile is_label s)) s)
         \<and> 2 \<le> length (takeWhile is_alpha (drop (Suc (length (takeWhile is_label s))) s))
      then Some (length (tok s)) else None)"
proof -
  let ?l = "length (takeWhile is_label s)"
  let ?v = "drop (Suc ?l) s"
  let ?a = "length (takeWhile is_alpha ?v)"
  have 1: "match_items [Rep is_label 1, Lit CHR ''.'', Rep is_alpha 2, Rep non_ws 0] s =
     (if 1 \<le> ?l
      then map_option ((+) ?l) (match_items [Lit CHR ''.'', Rep is_alpha 2, Rep non_ws 0] (drop ?l s))
      else None)"
    by (rule match_items_Rep_Lit) (rule class_literals)
  have 2: "match_items [Lit CHR ''.'', Rep is_alpha 2, Rep non_ws 0] (drop ?l s) =
     (if prefix ''.'' (drop ?l s) then map_option Suc (match_items [Rep is_alpha 2, Rep non_ws 0] ?v)
      else None)"
    by (simp add: match_items_Lit del: match_items.simps)
  have 3: "match_items [Rep is_alpha 2, Rep non_ws 0] ?v =
     (if 2 \<le> ?a then Some (?a + length (tok (drop ?a ?v))) else None)"
    using match_items_Rep_total [of "[Rep non_ws 0]" is_alpha 2 ?v] match_non_ws_run_total
    by (simp add: match_non_ws_run del: match_items.simps)
  have len: "length (tok s) = ?l + Suc (?a + length (tok (drop ?a ?v)))"
    if "prefix ''.'' (drop ?l s)"
  proof -
    have "length (tok (drop ?l s)) = 1 + length (tok (drop 1 (drop ?l s)))"
      using length_tok_prefix [OF that] by (simp add: class_literals)
    moreover have "length (tok ?v) = ?a + length (tok (drop ?a ?v))"
      by (rule length_tok_alpha)
    ultimately show ?thesis
      using length_tok_label [of s] by simp
  qed
  show ?thesis
    unfolding 1 2 3 using len by auto
qed

lemma alt_domain_path:
  "match_items [Rep is_label 1, Lit CHR ''.'', Rep is_alpha 2, Lit CHR ''/'', Rep non_ws 0] s \<noteq> None
   \<Longrightarrow> match_items [Rep is_label 1, Lit CHR ''.'', Rep is_alpha 2, Lit CHR ''/'', Rep non_ws 0] s
       = match_items [Rep is_label 1, Lit CHR ''.'', Rep is_alpha 2, Rep non_ws 0] s"
proof -
  let ?l = "length (takeWhile is_label s)"
  let ?v = "drop (Suc ?l) s"
  let ?a = "length (takeWhile is_alpha ?v)"
  let ?alt = "[Rep is_label 1, Lit CHR ''.'', Rep is_alpha 2, Lit CHR ''/'', Rep non_ws 0]"
  assume m: "match_items ?alt s \<noteq> None"
  have 1: "match_items ?alt s =
     (if 1 \<le> ?l
      then map_option ((+) ?l)
             (match_items [Lit CHR ''.'', Rep is_alpha 2, Lit CHR ''/'', Rep non_ws 0] (drop ?l s))
      else None)"
    by (rule match_items_Rep_Lit) (rule class_literals)
  have 2: "match_items [Lit CHR ''.'', Rep is_alpha 2, Lit CHR ''/'', Rep non_ws 0] (drop ?l s) =
     (if prefix ''.'' (drop ?l s)
      then map_option Suc (match_items [Rep is_alpha 2, Lit CHR ''/'', Rep non_ws 0] ?v)
      else None)"
    by (simp add: match_items_Lit del: match_items.simps)
  have 3: "match_items [Rep is_alpha 2, Lit CHR ''/'', Rep non_ws 0] ?v =
     (if 2 \<le> ?a
      then map_option ((+) ?a) (match_items [Lit CHR ''/'', Rep non_ws 0] (drop ?a ?v))
      else None)"
    by (rule match_items_Rep_Lit) (rule class_literals)
  have 4: "match_items [Lit CHR ''/'', Rep non_ws 0] (drop ?a ?v) =
     (if prefix ''/'' (drop ?a ?v) then Some (Suc (length (tok (drop 1 (drop ?a ?v))))) else None)"
    by (simp add: match_items_Lit match_non_ws_run del: match_items.simps)
  have c: "1 \<le> ?l" "prefix ''.'' (drop ?l s)" "2 \<le> ?a" "prefix ''/'' (drop ?a ?v)"
    using m unfolding 1 2 3 4 by (auto split: if_splits)
  have "length (tok (drop ?a ?v)) = 1 + length (tok (drop 1 (drop ?a ?v)))"
    using length_tok_prefix [OF c(4)] by (simp add: non_ws_def is_ws_def)
  then have "match_items ?alt s = Some (?l + Suc (?a + length (tok (drop ?a ?v))))"
    unfolding 1 2 3 4 using c by simp
  moreover have "length (tok s) = ?l + Suc (?a + length (tok (drop ?a ?v)))"
  proof -
    have "length (tok (drop ?l s)) = 1 + length (tok (drop 1 (drop ?l s)))"
      using length_tok_prefix [OF c(2)] by (simp add: class_literals)
    moreover have "length (tok ?v) = ?a + length (tok (drop ?a ?v))"
      by (rule length_tok_alpha)
    ultimately show ?thesis
      using length_tok_label [of s] by simp
  qed
  ultimately have "match_items ?alt s = Some (length (tok s))"
    by (simp only:)
  moreover have "match_items [Rep is_label 1, Lit CHR ''.'', Rep is_alpha 2, Rep non_ws 0] s
      = Some (length (tok s))"
    unfolding alt_domain using c by (simp only: if_True simp_thms)
  ultimately show ?thesis
    by (simp only:)
qed

lemma starts_url_tok:
  "starts_url (tok s) =
    ((prefix ''https://'' s \<and> 1 \<le> length (tok (drop 8 s)))
     \<or> (prefix ''http://'' s \<and> 1 \<le> length (tok (drop 7 s)))
     \<or> (prefix ''www.'' s \<and> 1 \<le> length (tok (drop 4 s)))
     \<or> (1 \<le> length (takeWhile is_label s)
         \<and> prefix ''.'' (drop (length (takeWhile is_label s)) s)
         \<and> 2 \<le> length (takeWhile is_alpha (drop (Suc (length (takeWhile is_label s))) s))))"
proof -
  let ?l = "length (takeWhile is_label s)"
  have lit: "(prefix p (tok s) \<and> Suc (length p) \<le> length (tok s))
      = (prefix p s \<and> 1 \<le> length (tok (drop (length p) s)))" if "list_all non_ws p" for p
    using length_tok_prefix [of p s] that by (auto simp add: prefix_tok)
  have 1: "(prefix ''https://'' (tok s) \<and> 9 \<le> length (tok s))
      = (prefix ''https://'' s \<and> 1 \<le> length (tok (drop 8 s)))"
    using lit [OF all_non_ws_literals(1)] by (simp add: eval_nat_numeral)
  have 2: "(prefix ''http://'' (tok s) \<and> 8 \<le> length (tok s))
      = (prefix ''http://'' s \<and> 1 \<le> length (tok (drop 7 s)))"
    using lit [OF all_non_ws_literals(2)] by (simp add: eval_nat_numeral)
  have 3: "(prefix ''www.'' (tok s) \<and> 5 \<le> length (tok s))
      = (prefix ''www.'' s \<and> 1 \<le> length (tok (drop 4 s)))"
    using lit [OF all_non_ws_literals(3)] by (simp add: eval_nat_numeral)
  have tl: "takeWhile is_label (tok s) = takeWhile is_label s"
    by (rule takeWhile_tok) (rule label_non_ws)
  have le: "?l \<le> length (tok s)"
    using length_tok_label [of s] by simp
  have dot: "prefix ''.'' (drop ?l (tok s)) = prefix ''.'' (drop ?l s)"
    using prefix_tok [of "''.''" "drop ?l s"] by (simp add: drop_tok [OF le] class_literals)
  have alp: "takeWhile is_alpha (drop (Suc ?l) (tok s)) = takeWhile is_alpha (drop (Suc ?l) s)"
    if "prefix ''.'' (drop ?l s)"
  proof -
    have "length (tok (drop ?l s)) = 1 + length (tok (drop 1 (drop ?l s)))"
      using length_tok_prefix [OF that] by (simp add: class_literals)
    then have "Suc ?l \<le> length (tok s)"
      using length_tok_label [of s] by simp
    then have "drop (Suc ?l) (tok s) = tok (drop (Suc ?l) s)"
      by (rule drop_tok)
    then show ?thesis
      using takeWhile_tok [of is_alpha "drop (Suc ?l) s"] alpha_non_ws by simp
  qed
  have 4: "(1 \<le> length (takeWhile is_label (tok s))
         \<and> prefix ''.'' (drop (length (takeWhile is_label (tok s))) (tok s))
         \<and> 2 \<le> length (takeWhile is_alpha (drop (Suc (length (takeWhile is_label (tok s)))) (tok s))))
     = (1 \<le> ?l \<and> prefix ''.'' (drop ?l s)
         \<and> 2 \<le> length (takeWhile is_alpha (drop (Suc ?l) s)))"
    unfolding tl dot using alp by auto
  show ?thesis
    unfolding starts_url_def 1 2 3 4 ..
qed

text \<open>
  The regex against the specification's words: it matches at the start of a string
  exactly when the token there starts with something URL-like, and the match is then the
  whole token.
\<close>

lemma match_url:
  "match_alts urlRegex s = (if starts_url (tok s) then Some (length (tok s)) else None)"
proof -
  let ?A1 = "match_items (map Lit ''http'' @ [Opt CHR ''s''] @ map Lit ''://'' @ [Rep non_ws 1]) s"
  let ?A2 = "match_items (map Lit ''www.'' @ [Rep non_ws 1]) s"
  let ?A3 = "match_items [Rep is_label 1, Lit CHR ''.'', Rep is_alpha 2, Lit CHR ''/'', Rep non_ws 0] s"
  let ?A4 = "match_items [Rep is_label 1, Lit CHR ''.'', Rep is_alpha 2, Rep non_ws 0] s"
  let ?C1 = "prefix ''https://'' s \<and> 1 \<le> length (tok (drop 8 s))"
  let ?C2 = "prefix ''http://'' s \<and> 1 \<le> length (tok (drop 7 s))"
  let ?C3 = "prefix ''www.'' s \<and> 1 \<le> length (tok (drop 4 s))"
  let ?C4 = "1 \<le> length (takeWhile is_label s)
         \<and> prefix ''.'' (drop (length (takeWhile is_label s)) s)
         \<and> 2 \<le> length (takeWhile is_alpha (drop (Suc (length (takeWhile is_label s))) s))"
  have m: "match_alts urlRegex s =
     (case ?A1 of Some n \<Rightarrow> Some n | None \<Rightarrow>
        (case ?A2 of Some n \<Rightarrow> Some n | None \<Rightarrow>
           (case ?A3 of Some n \<Rightarrow> Some n | None \<Rightarrow>
              (case ?A4 of Some n \<Rightarrow> Some n | None \<Rightarrow> None))))"
    unfolding urlRegex_def by (simp only: match_alts.simps split: option.splits)
  have l8: "prefix ''https://'' s \<Longrightarrow> 8 + length (tok (drop 8 s)) = length (tok s)"
    using length_tok_prefix [OF _ all_non_ws_literals(1), of s] by (simp add: eval_nat_numeral)
  have l7: "prefix ''http://'' s \<Longrightarrow> 7 + length (tok (drop 7 s)) = length (tok s)"
    using length_tok_prefix [OF _ all_non_ws_literals(2), of s] by (simp add: eval_nat_numeral)
  have l4: "prefix ''www.'' s \<Longrightarrow> 4 + length (tok (drop 4 s)) = length (tok s)"
    using length_tok_prefix [OF _ all_non_ws_literals(3), of s] by (simp add: eval_nat_numeral)
  have a1: "?A1 = (if ?C1 \<or> ?C2 then Some (length (tok s)) else None)"
    unfolding alt_http using l8 l7 by auto
  have a2: "?A2 = (if ?C3 then Some (length (tok s)) else None)"
    unfolding alt_www using l4 by auto
  have a4: "?A4 = (if ?C4 then Some (length (tok s)) else None)"
    by (rule alt_domain)
  have a3: "?A3 = None \<or> (?A3 = Some (length (tok s)) \<and> ?C4)"
    using alt_domain_path [of s] unfolding a4 by (auto split: if_splits simp del: match_items.simps)
  have "match_alts urlRegex s = (if ?C1 \<or> ?C2 \<or> ?C3 \<or> ?C4 then Some (length (tok s)) else None)"
    unfolding m a1 a2 a4 using a3 by (auto simp del: match_items.simps)
  then show ?thesis
    unfolding starts_url_tok by (simp only: disj_assoc)
qed

lemma length_takeWhile_append_ge:
  "length (takeWhile P xs) \<le> length (takeWhile P (xs @ ys))"
  by (induction xs) simp_all

lemma starts_url_mono:
  assumes "starts_url p" "prefix p q"
  shows "starts_url q"
proof -
  obtain r where q: "q = p @ r" using assms(2) by (auto simp add: prefix_def)
  let ?l = "length (takeWhile is_label p)"
  have pre: "prefix x p \<Longrightarrow> prefix x q" for x
    using assms(2) by (rule prefix_order.trans [rotated])
  have len: "length p \<le> length q" by (simp add: q)
  have dom: "1 \<le> length (takeWhile is_label q)
         \<and> prefix ''.'' (drop (length (takeWhile is_label q)) q)
         \<and> 2 \<le> length (takeWhile is_alpha (drop (Suc (length (takeWhile is_label q))) q))"
    if d: "1 \<le> ?l" "prefix ''.'' (drop ?l p)"
       "2 \<le> length (takeWhile is_alpha (drop (Suc ?l) p))"
  proof -
    from d(2) obtain rest where dr: "drop ?l p = CHR ''.'' # rest"
      by (auto simp add: prefix_def)
    have lt: "?l < length p"
      using dr by (metis drop_eq_Nil list.distinct(1) not_le)
    have "p ! ?l = CHR ''.''"
      using dr lt by (metis nth_via_drop)
    then have "p ! ?l \<in> set p" "\<not> is_label (p ! ?l)"
      using lt nth_mem [OF lt] by (simp_all add: class_literals)
    then have tw: "takeWhile is_label q = takeWhile is_label p"
      unfolding q by (rule takeWhile_append1)
    have d1: "drop ?l q = drop ?l p @ r"
      using lt by (simp add: q)
    have d2: "drop (Suc ?l) q = drop (Suc ?l) p @ r"
      using lt by (simp add: q)
    have "2 \<le> length (takeWhile is_alpha (drop (Suc ?l) p @ r))"
      using d(3) length_takeWhile_append_ge [of is_alpha "drop (Suc ?l) p" r] by simp
    then show ?thesis
      using d(1) by (simp add: tw d1 d2 dr)
  qed
  show ?thesis
    using assms(1) pre len dom unfolding starts_url_def [of p] starts_url_def [of q]
    by (elim disjE conjE) auto
qed

lemma not_starts_url_Nil [simp]: "\<not> starts_url []"
  by (simp add: starts_url_def)

lemma match_url_ws: "is_ws c \<Longrightarrow> match_alts urlRegex (c # s) = None"
  by (simp add: match_url tok_Cons non_ws_def)

lemma match_url_Nil [simp]: "match_alts urlRegex [] = None"
  by (simp add: match_url)

lemma match_url_tok_prefix:
  assumes "match_alts urlRegex s = None" "prefix (tok s') (tok s)"
  shows "match_alts urlRegex s' = None"
  using assms starts_url_mono [of "tok s'" "tok s"] by (auto simp add: match_url split: if_splits)

text \<open>Removing the matches: the first token of the result is the start of the first token.\<close>

lemma tok_drop_all: "tok (drop (length (tok s)) s) = []"
proof (induction s)
  case Nil
  then show ?case by simp
next
  case (Cons c s)
  then show ?case by (simp add: tok_Cons)
qed

lemma tok_remove_urls:
  "prefix (tok (replace_all (match_alts urlRegex) [] s)) (tok s)"
proof (induction "match_alts urlRegex" "[] :: string" s rule: replace_all.induct)
  case 1
  then show ?case by simp
next
  case (2 c cs)
  show ?case
  proof (cases "match_alts urlRegex (c # cs)")
    case None
    then show ?thesis
      using 2(1) by (simp add: tok_Cons)
  next
    case (Some n)
    then have n: "n = length (tok (c # cs))" and su: "starts_url (tok (c # cs))"
      by (auto simp add: match_url split: if_splits)
    then have nw: "non_ws c"
      by (auto simp add: tok_Cons split: if_splits)
    then obtain k where k: "n = Suc k" "k = length (tok cs)"
      using n by (simp add: tok_Cons)
    have "tok (replace_all (match_alts urlRegex) [] (drop k cs)) = []"
      using 2(3) [OF Some [unfolded k(1)]] tok_drop_all [of cs] by (simp add: k(2))
    then show ?thesis
      by (simp add: Some k(1))
  qed
qed

lemma url_free_remove_urls: "url_free (replace_all (match_alts urlRegex) [] s)"
proof (induction "match_alts urlRegex" "[] :: string" s rule: replace_all.induct)
  case 1
  then show ?case by simp
next
  case (2 c cs)
  show ?case
  proof (cases "match_alts urlRegex (c # cs)")
    case None
    let ?R = "replace_all (match_alts urlRegex) [] cs"
    have "prefix (tok (c # ?R)) (tok (c # cs))"
      using tok_remove_urls [of cs] by (simp add: tok_Cons)
    with None have "match_alts urlRegex (c # ?R) = None"
      by (rule match_url_tok_prefix)
    then show ?thesis
      using 2(1) [OF None] by (simp add: None)
  next
    case (Some n)
    then have "n = length (tok (c # cs))" "starts_url (tok (c # cs))"
      by (auto simp add: match_url split: if_splits)
    then obtain k where k: "n = Suc k"
      by (cases n) (auto simp add: tok_Cons split: if_splits)
    show ?thesis
      using 2(3) [OF Some [unfolded k]] by (simp add: Some k)
  qed
qed

text \<open>Collapsing whitespace, and trimming.\<close>

lemma match_ws:
  "match_alts wsRegex s =
     (if 1 \<le> length (takeWhile is_ws s) then Some (length (takeWhile is_ws s)) else None)"
  unfolding wsRegex_def by (simp only: match_alts.simps match_items_Rep_last split: option.splits) simp

lemma match_ws_Cons:
  "match_alts wsRegex (c # cs) =
     (if is_ws c then Some (Suc (length (takeWhile is_ws cs))) else None)"
  by (simp add: match_ws)

lemma collapse_Cons:
  "replace_all (match_alts wsRegex) '' '' (c # cs) =
     (if is_ws c then CHR '' '' # replace_all (match_alts wsRegex) '' '' (dropWhile is_ws cs)
      else c # replace_all (match_alts wsRegex) '' '' cs)"
  by (simp add: match_ws_Cons dropWhile_eq_drop)

lemma match_ws_Nil [simp]: "match_alts wsRegex [] = None"
  by (simp add: match_ws)

lemma collapse_Nil: "replace_all (match_alts wsRegex) '' '' [] = []"
  by simp

lemma url_free_drop: "url_free s \<Longrightarrow> url_free (drop k s)"
proof (induction s arbitrary: k)
  case Nil
  then show ?case by simp
next
  case (Cons c s)
  then show ?case by (cases k) simp_all
qed

lemma url_free_dropWhile: "url_free s \<Longrightarrow> url_free (dropWhile P s)"
  by (simp add: dropWhile_eq_drop url_free_drop)

lemma match_url_tok_eq: "tok s = tok s' \<Longrightarrow> match_alts urlRegex s = match_alts urlRegex s'"
  by (simp add: match_url)

lemma is_ws_space: "is_ws CHR '' ''"
  by (simp add: is_ws_def)

lemma collapse_induct [case_names Nil ws other]:
  assumes "P []"
    and "\<And>c cs. is_ws c \<Longrightarrow> P (dropWhile is_ws cs) \<Longrightarrow> P (c # cs)"
    and "\<And>c cs. \<not> is_ws c \<Longrightarrow> P cs \<Longrightarrow> P (c # cs)"
  shows "P s"
proof (induction "length s" arbitrary: s rule: less_induct)
  case less
  show ?case
  proof (cases s)
    case Nil
    then show ?thesis using assms(1) by simp
  next
    case (Cons c cs)
    have "length (dropWhile is_ws cs) < length s"
      using length_dropWhile_le [of is_ws cs] by (simp add: Cons)
    then have "P (dropWhile is_ws cs)" "P cs"
      using less by (simp_all add: Cons)
    then show ?thesis
      using assms(2,3) [of c cs] by (cases "is_ws c") (simp_all add: Cons)
  qed
qed

lemma tok_collapse: "tok (replace_all (match_alts wsRegex) '' '' s) = tok s"
proof (induction s rule: collapse_induct)
  case Nil
  then show ?case by (simp add: collapse_Nil del: replace_all.simps)
next
  case (ws c cs)
  then show ?case by (simp add: collapse_Cons tok_Cons non_ws_def is_ws_space del: replace_all.simps)
next
  case (other c cs)
  then show ?case by (simp add: collapse_Cons tok_Cons del: replace_all.simps)
qed

lemma url_free_collapse:
  "url_free s \<Longrightarrow> url_free (replace_all (match_alts wsRegex) '' '' s)"
proof (induction s rule: collapse_induct)
  case Nil
  then show ?case by (simp add: collapse_Nil del: replace_all.simps)
next
  case (ws c cs)
  have "url_free (dropWhile is_ws cs)"
    using ws.prems by (simp add: url_free_dropWhile)
  then show ?case
    using ws.IH by (simp add: collapse_Cons ws.hyps match_url_ws is_ws_space del: replace_all.simps)
next
  case (other c cs)
  have "match_alts urlRegex (c # replace_all (match_alts wsRegex) '' '' cs)
      = match_alts urlRegex (c # cs)"
    by (rule match_url_tok_eq) (simp add: tok_Cons tok_collapse del: replace_all.simps)
  then show ?case
    using other by (simp add: collapse_Cons del: replace_all.simps)
qed

lemma spaces_collapse:
  "list_all (\<lambda>c. is_ws c \<longrightarrow> c = CHR '' '') (replace_all (match_alts wsRegex) '' '' s)"
proof (induction s rule: collapse_induct)
  case Nil
  then show ?case by (simp add: collapse_Nil del: replace_all.simps)
next
  case (ws c cs)
  then show ?case by (simp add: collapse_Cons del: replace_all.simps)
next
  case (other c cs)
  then show ?case by (simp add: collapse_Cons del: replace_all.simps)
qed

lemma no_ws_run_collapse:
  "no_ws_run (replace_all (match_alts wsRegex) '' '' s)"
proof (induction s rule: collapse_induct)
  case Nil
  then show ?case by (simp add: collapse_Nil del: replace_all.simps)
next
  case (ws c cs)
  let ?d = "dropWhile is_ws cs"
  show ?case
  proof (cases ?d)
    case Nil
    have "replace_all (match_alts wsRegex) '' '' ?d = []"
      by (simp only: Nil collapse_Nil)
    then show ?thesis by (simp add: collapse_Cons ws.hyps del: replace_all.simps)
  next
    case (Cons x xs)
    then have "\<not> is_ws x"
      using hd_dropWhile [of is_ws cs] by auto
    then have "replace_all (match_alts wsRegex) '' '' ?d
        = x # replace_all (match_alts wsRegex) '' '' xs"
      by (simp add: Cons collapse_Cons del: replace_all.simps)
    then show ?thesis
      using ws.IH \<open>\<not> is_ws x\<close> by (simp add: collapse_Cons ws.hyps del: replace_all.simps)
  qed
next
  case (other c cs)
  then show ?case
    by (cases "replace_all (match_alts wsRegex) '' '' cs") (simp_all add: collapse_Cons del: replace_all.simps)
qed

lemma trim_decomp:
  "\<exists>w. list_all is_ws w \<and> dropWhile is_ws s = trim s @ w"
proof -
  let ?d = "dropWhile is_ws s"
  have "rev (takeWhile is_ws (rev ?d) @ dropWhile is_ws (rev ?d))
      = rev (dropWhile is_ws (rev ?d)) @ rev (takeWhile is_ws (rev ?d))"
    by (rule rev_append)
  moreover have "takeWhile is_ws (rev ?d) @ dropWhile is_ws (rev ?d) = rev ?d"
    by (rule takeWhile_dropWhile_id)
  ultimately have "rev (rev ?d) = rev (dropWhile is_ws (rev ?d)) @ rev (takeWhile is_ws (rev ?d))"
    by (simp only:)
  then have "?d = trim s @ rev (takeWhile is_ws (rev ?d))"
    by (simp only: rev_rev_ident trim_def)
  moreover have "list_all is_ws (rev (takeWhile is_ws (rev ?d)))"
    by (simp add: list_all_iff) (meson set_takeWhileD)
  ultimately show ?thesis by blast
qed

lemma tok_append_ws: "list_all is_ws w \<Longrightarrow> tok (x @ w) = tok x"
proof (induction x)
  case Nil
  then show ?case by (cases w) (simp_all add: tok_Cons non_ws_def)
next
  case (Cons c x)
  then show ?case by (simp add: tok_Cons)
qed

lemma url_free_front:
  assumes "list_all is_ws w"
  shows "url_free (t @ w) \<Longrightarrow> url_free t"
proof (induction t)
  case Nil
  then show ?case by simp
next
  case (Cons c t)
  have "tok (c # t) = tok ((c # t) @ w)"
    using tok_append_ws [OF assms, of "c # t"] by simp
  then have "match_alts urlRegex (c # t) = match_alts urlRegex ((c # t) @ w)"
    by (rule match_url_tok_eq)
  then show ?case
    using Cons by simp
qed

lemma url_free_trim: "url_free s \<Longrightarrow> url_free (trim s)"
proof -
  assume "url_free s"
  then have d: "url_free (dropWhile is_ws s)" by (rule url_free_dropWhile)
  obtain w where "list_all is_ws w" "dropWhile is_ws s = trim s @ w"
    using trim_decomp by blast
  then show ?thesis
    using d url_free_front by metis
qed

lemma no_ws_run_Cons: "no_ws_run (c # cs) \<Longrightarrow> no_ws_run cs"
  by (cases cs) simp_all

lemma no_ws_run_dropWhile: "no_ws_run s \<Longrightarrow> no_ws_run (dropWhile P s)"
proof (induction s)
  case Nil
  then show ?case by simp
next
  case (Cons c s)
  then show ?case using no_ws_run_Cons [of c s] by simp
qed

lemma no_ws_run_front: "no_ws_run (t @ w) \<Longrightarrow> no_ws_run t"
  by (induction t rule: no_ws_run.induct) simp_all

lemma no_ws_run_trim: "no_ws_run s \<Longrightarrow> no_ws_run (trim s)"
proof -
  assume "no_ws_run s"
  then have d: "no_ws_run (dropWhile is_ws s)" by (rule no_ws_run_dropWhile)
  obtain w where "dropWhile is_ws s = trim s @ w"
    using trim_decomp by blast
  then show ?thesis
    using d no_ws_run_front by metis
qed

lemma set_trim: "set (trim s) \<subseteq> set s"
proof -
  have "set (trim s) \<subseteq> set (dropWhile is_ws s)"
    unfolding trim_def using set_dropWhileD by fastforce
  then show ?thesis
    using set_dropWhileD by fastforce
qed

lemma list_all_trim: "list_all P s \<Longrightarrow> list_all P (trim s)"
  using set_trim [of s] by (auto simp add: list_all_iff)

text \<open>Removing characters only: the result of the URL removal is a subsequence.\<close>

lemma subseq_replace_all_empty: "subseq (replace_all m [] s) s"
proof (induction m "[] :: string" s rule: replace_all.induct)
  case (1 m)
  then show ?case by (simp split: option.splits)
next
  case (2 m c cs)
  show ?case
  proof (cases "m (c # cs)")
    case None
    then show ?thesis using 2(1) by simp
  next
    case (Some n)
    show ?thesis
    proof (cases n)
      case 0
      then show ?thesis using 2(2) Some by simp
    next
      case (Suc k)
      have "subseq (replace_all m [] (drop k cs)) (drop k cs)"
        using 2(3) Some Suc by simp
      moreover have "subseq (drop k cs) (c # cs)"
        by (metis append_take_drop_id list_emb_append2 subseq_Cons' subseq_order.order_refl
            subseq_Cons2_iff)
      ultimately show ?thesis
        using Some Suc by (simp add: subseq_order.order_trans)
    qed
  qed
qed


lemma filterUrlsFromText_normal:
  "url_free (filterUrlsFromText t)"
  "trim (filterUrlsFromText t) = filterUrlsFromText t"
  "no_ws_run (filterUrlsFromText t)"
  "list_all (\<lambda>c. is_ws c \<longrightarrow> c = CHR '' '') (filterUrlsFromText t)"
  unfolding filterUrlsFromText_def
  by (simp_all only: url_free_trim url_free_collapse url_free_remove_urls trim_trim
      no_ws_run_trim no_ws_run_collapse list_all_trim spaces_collapse)

lemma filterUrls_example_links:
  "filterUrlsFromText ''See https://example.com/a?b=1 and   www.x.org now'' = ''See and now''"
  by (simp add: filterUrlsFromText_def urlRegex_def wsRegex_def trim_def is_ws_def non_ws_def
      is_alpha_def is_label_def)


section \<open>Theorems: the reply is spoken without its URLs\<close>




end
